theory Spec2Isabelle
  imports Main "HOL-Library.AList" "HOL-Library.Multiset"
begin

section \<open>chess-gif: a PGN file rendered as an animated GIF\<close>

text \<open>
  The program (\<^verbatim>\<open>src/main.py\<close>) is a pipeline over the file system:
  read the PGN text, parse it into a game, write one SVG per position into
  \<^verbatim>\<open>temp/svg\<close>, rasterise every SVG found there into \<^verbatim>\<open>temp/png\<close>, assemble the PNGs
  found there (sorted by the integer value of their stem) into a GIF, optionally run
  gifsicle on it, and remove \<^verbatim>\<open>temp\<close>.

  The embedding threads an explicit world (files, directories, standard output) through
  every function; a Python exception is the \<open>Inl\<close> branch of the result, returned
  together with the world as it was when the exception was raised. The third-party
  libraries (python-chess, cairosvg, imageio, pygifsicle) and the order in which a
  directory is enumerated are parameters, collected in the record \<open>lib\<close>.
\<close>

subsection \<open>Paths (pathlib)\<close>

text \<open>
  A path is the list of its components relative to the working directory; the empty
  list is \<^verbatim>\<open>Path(".")\<close>. Different component lists denote different files (no symbolic
  links, no \<^verbatim>\<open>..\<close>).
\<close>

type_synonym path = "string list"

definition path_name :: "path \<Rightarrow> string" where
  "path_name p = (if p = [] then [] else last p)"

definition path_parent :: "path \<Rightarrow> path" where
  "path_parent p = butlast p"

text \<open>
  \<^verbatim>\<open>PurePath.suffix\<close> and \<^verbatim>\<open>PurePath.stem\<close>: with \<^verbatim>\<open>i = name.rfind('.')\<close>, the name is
  split at \<open>i\<close> when \<^verbatim>\<open>0 < i < len(name) - 1\<close>, otherwise the suffix is empty.
  \<open>after_dot\<close> is the number of characters behind the last dot.
\<close>

definition after_dot :: "string \<Rightarrow> nat" where
  "after_dot name = length (takeWhile (\<lambda>c. c \<noteq> CHR ''.'') (rev name))"

definition splits_at_dot :: "string \<Rightarrow> bool" where
  "splits_at_dot name \<longleftrightarrow>
     CHR ''.'' \<in> set name \<and> 0 < length name - after_dot name - 1 \<and> 0 < after_dot name"

definition name_stem :: "string \<Rightarrow> string" where
  "name_stem name =
     (if splits_at_dot name then take (length name - after_dot name - 1) name else name)"

definition name_suffix :: "string \<Rightarrow> string" where
  "name_suffix name =
     (if splits_at_dot name then drop (length name - after_dot name - 1) name else [])"

definition path_stem :: "path \<Rightarrow> string" where
  "path_stem p = name_stem (path_name p)"

definition path_suffix :: "path \<Rightarrow> string" where
  "path_suffix p = name_suffix (path_name p)"

text \<open>The pattern \<^verbatim>\<open>*.ext\<close> of \<^verbatim>\<open>Path.glob\<close> matches the names that end with \<^verbatim>\<open>.ext\<close>.\<close>

definition ends_with :: "string \<Rightarrow> string \<Rightarrow> bool" where
  "ends_with ext name \<longleftrightarrow>
     length ext \<le> length name \<and> drop (length name - length ext) name = ext"

definition is_under :: "path \<Rightarrow> path \<Rightarrow> bool" where
  "is_under d p \<longleftrightarrow> take (length d) p = d"

subsection \<open>Decimal numerals: \<^verbatim>\<open>f"{i}"\<close> and \<^verbatim>\<open>int(s)\<close>\<close>

definition digits :: string where
  "digits = ''0123456789''"

definition digit_char :: "nat \<Rightarrow> char" where
  "digit_char d = digits ! d"

definition digit_val :: "char \<Rightarrow> nat option" where
  "digit_val c =
     (if c \<in> set digits then Some (length (takeWhile (\<lambda>d. d \<noteq> c) digits)) else None)"

text \<open>The frame index of \<^verbatim>\<open>enumerate(..., start=1)\<close> is never negative.\<close>

function str_nat :: "nat \<Rightarrow> string" where
  "str_nat n = (if n < 10 then [digit_char n] else str_nat (n div 10) @ [digit_char (n mod 10)])"
  by pat_completeness auto
termination
  by (relation "measure id") auto

declare str_nat.simps [simp del]

datatype error =
    FileNotFoundError
  | IsADirectoryError
  | NotADirectoryError
  | FileExistsError
  | UnicodeDecodeError
  | InvalidLiteral string
  | UnknownValue string
  | LibraryError string

text \<open>
  \<^verbatim>\<open>int(s)\<close> on a string, over ASCII: surrounding white space is stripped, one sign is
  allowed, then decimal digits, with single underscores between digits. Anything else
  raises \<^verbatim>\<open>ValueError\<close> (\<open>InvalidLiteral\<close>). The limit on the number of digits of
  recent interpreters (4300 by default) is not modelled.
\<close>

definition is_space :: "char \<Rightarrow> bool" where
  "is_space c \<longleftrightarrow> c \<in> set [CHR '' '', CHR 0x09, CHR 0x0A, CHR 0x0B, CHR 0x0C, CHR 0x0D,
                              CHR 0x1C, CHR 0x1D, CHR 0x1E, CHR 0x1F]"

definition strip :: "string \<Rightarrow> string" where
  "strip s = rev (dropWhile is_space (rev (dropWhile is_space s)))"

fun parse_digits :: "string \<Rightarrow> nat \<Rightarrow> nat option" where
  "parse_digits [] acc = Some acc"
| "parse_digits [c] acc =
     (case digit_val c of None \<Rightarrow> None | Some v \<Rightarrow> Some (acc * 10 + v))"
| "parse_digits (c # d # ds) acc =
     (if c = CHR ''_''
      then (case digit_val d of None \<Rightarrow> None | Some v \<Rightarrow> parse_digits ds (acc * 10 + v))
      else (case digit_val c of None \<Rightarrow> None | Some v \<Rightarrow> parse_digits (d # ds) (acc * 10 + v)))"

definition parse_unsigned :: "string \<Rightarrow> nat option" where
  "parse_unsigned s =
     (case s of [] \<Rightarrow> None
      | c # cs \<Rightarrow> (case digit_val c of None \<Rightarrow> None | Some v \<Rightarrow> parse_digits cs v))"

definition py_int :: "string \<Rightarrow> error + int" where
  "py_int s =
     (case strip s of
        [] \<Rightarrow> Inl (InvalidLiteral s)
      | c # cs \<Rightarrow>
          (if c = CHR ''-'' then
             (case parse_unsigned cs of None \<Rightarrow> Inl (InvalidLiteral s) | Some n \<Rightarrow> Inr (- int n))
           else if c = CHR ''+'' then
             (case parse_unsigned cs of None \<Rightarrow> Inl (InvalidLiteral s) | Some n \<Rightarrow> Inr (int n))
           else
             (case parse_unsigned (c # cs) of None \<Rightarrow> Inl (InvalidLiteral s) | Some n \<Rightarrow> Inr (int n))))"

subsection \<open>The world: files, directories, standard output\<close>

text \<open>
  \<open>duration\<close> reaches the encoder as argparse leaves it: the integer default, or the
  command-line string (the option has no \<^verbatim>\<open>type=\<close>).
\<close>

datatype pyval = PyInt int | PyStr string

text \<open>
  What a file holds: text, a raster image, or an animation (its frames and the
  per-frame duration its writer was opened with).
\<close>

datatype 'i fdata = Text string | Png 'i | Gif "'i list" pyval

record 'i world =
  files :: "(path \<times> 'i fdata) list"
  dirs :: "path list"
  stdout :: "string list"

type_synonym ('a, 'i) io = "'i world \<Rightarrow> (error + 'a) \<times> 'i world"

definition lookup :: "'i world \<Rightarrow> path \<Rightarrow> 'i fdata option" where
  "lookup w p = map_of (files w) p"

definition is_file :: "'i world \<Rightarrow> path \<Rightarrow> bool" where
  "is_file w p \<longleftrightarrow> lookup w p \<noteq> None"

definition is_dir :: "'i world \<Rightarrow> path \<Rightarrow> bool" where
  "is_dir w p \<longleftrightarrow> p = [] \<or> p \<in> set (dirs w)"

text \<open>Some proper, non-empty prefix of the path is a regular file.\<close>

definition file_on_way :: "'i world \<Rightarrow> path \<Rightarrow> bool" where
  "file_on_way w p \<longleftrightarrow> list_ex (\<lambda>k. is_file w (take k p)) [1..<length p]"

definition bind :: "('a, 'i) io \<Rightarrow> ('a \<Rightarrow> ('b, 'i) io) \<Rightarrow> ('b, 'i) io" where
  "bind m f w = (case m w of (Inl e, w') \<Rightarrow> (Inl e, w') | (Inr x, w') \<Rightarrow> f x w')"

definition raise :: "error \<Rightarrow> ('a, 'i) io" where
  "raise e w = (Inl e, w)"

definition return :: "'a \<Rightarrow> ('a, 'i) io" where
  "return x w = (Inr x, w)"

text \<open>
  The system calls. On a world where every entry's parent is a directory and nothing is
  both a file and a directory they raise what the operating system raises; they are
  total on every world.
\<close>

definition read_file :: "path \<Rightarrow> ('i fdata, 'i) io" where
  "read_file p w =
     (case lookup w p of
        Some c \<Rightarrow> (Inr c, w)
      | None \<Rightarrow>
          (if is_dir w p then (Inl IsADirectoryError, w)
           else if file_on_way w p then (Inl NotADirectoryError, w)
           else (Inl FileNotFoundError, w)))"

definition write_file :: "path \<Rightarrow> 'i fdata \<Rightarrow> (unit, 'i) io" where
  "write_file p c w =
     (if is_dir w p then (Inl IsADirectoryError, w)
      else if file_on_way w p then (Inl NotADirectoryError, w)
      else if \<not> is_dir w (path_parent p) then (Inl FileNotFoundError, w)
      else (Inr (), w\<lparr>files := AList.update p c (files w)\<rparr>))"

definition os_mkdir :: "path \<Rightarrow> (unit, 'i) io" where
  "os_mkdir p w =
     (if is_dir w p \<or> is_file w p then (Inl FileExistsError, w)
      else if file_on_way w p then (Inl NotADirectoryError, w)
      else if \<not> is_dir w (path_parent p) then (Inl FileNotFoundError, w)
      else (Inr (), w\<lparr>dirs := dirs w @ [p]\<rparr>))"

text \<open>
  \<^verbatim>\<open>Path.mkdir(parents=False, exist_ok=True)\<close> and \<^verbatim>\<open>Path.mkdir(parents=True, exist_ok=True)\<close>,
  as pathlib writes them: \<^verbatim>\<open>os.mkdir\<close>; on \<^verbatim>\<open>FileNotFoundError\<close> create the parent
  and try once more; any other \<^verbatim>\<open>OSError\<close> is dropped when the path is a directory.
\<close>

definition mkdir_exist_ok :: "path \<Rightarrow> (unit, 'i) io" where
  "mkdir_exist_ok p w =
     (case os_mkdir p w of
        (Inr u, w') \<Rightarrow> (Inr u, w')
      | (Inl e, w') \<Rightarrow>
          (if e = FileNotFoundError then (Inl e, w')
           else if is_dir w' p then (Inr (), w') else (Inl e, w')))"

function mkdir_parents :: "path \<Rightarrow> (unit, 'i) io" where
  "mkdir_parents p w =
     (case os_mkdir p w of
        (Inr u, w') \<Rightarrow> (Inr u, w')
      | (Inl e, w') \<Rightarrow>
          (if e = FileNotFoundError then
             (if p = [] then (Inl e, w')
              else (case mkdir_parents (path_parent p) w' of
                      (Inl e', w'') \<Rightarrow> (Inl e', w'')
                    | (Inr u, w'') \<Rightarrow> mkdir_exist_ok p w''))
           else if is_dir w' p then (Inr (), w') else (Inl e, w')))"
  by pat_completeness auto
termination
  by (relation "measure (\<lambda>(p, w). length p)") (auto simp: path_parent_def)

declare mkdir_parents.simps [simp del]

text \<open>\<^verbatim>\<open>shutil.rmtree\<close>: the directory and everything below it go.\<close>

definition rmtree :: "path \<Rightarrow> (unit, 'i) io" where
  "rmtree d w =
     (if is_file w d then (Inl NotADirectoryError, w)
      else if \<not> is_dir w d then (Inl FileNotFoundError, w)
      else (Inr (), w\<lparr>files := filter (\<lambda>(p, c). \<not> is_under d p) (files w),
                      dirs := filter (\<lambda>p. \<not> is_under d p) (dirs w)\<rparr>))"

definition print :: "string \<Rightarrow> (unit, 'i) io" where
  "print s w = (Inr (), w\<lparr>stdout := stdout w @ [s]\<rparr>)"

text \<open>
  Every entry (file or directory) of the world, each once; \<open>glob\<close> lists the children
  of a directory whose name ends with the extension, in the order the library's
  \<open>scandir\<close> puts them. pathlib reads the directory once, when the iteration starts, so
  the loop of line 54 runs over the entries that were there before its first step.
\<close>

definition entries :: "'i world \<Rightarrow> path list" where
  "entries w = remdups (map fst (files w) @ dirs w)"

definition children :: "'i world \<Rightarrow> path \<Rightarrow> string \<Rightarrow> path list" where
  "children w d ext =
     filter (\<lambda>p. p \<noteq> [] \<and> path_parent p = d \<and> ends_with ext (path_name p)) (entries w)"

subsection \<open>The libraries\<close>

text \<open>
  \<^item> \<open>read_game\<close>: \<^verbatim>\<open>chess.pgn.read_game(io.StringIO(pgn))\<close>, \<open>None\<close> when there is no game;
  \<^item> \<open>board\<close>, \<open>mainline_moves\<close>, \<open>push\<close>: \<^verbatim>\<open>game.board()\<close>, \<^verbatim>\<open>game.mainline_moves()\<close>,
    \<^verbatim>\<open>board.push(move)\<close> (the board after the move);
  \<^item> \<open>svg_board\<close>: \<^verbatim>\<open>chess.svg.board(board)\<close>, a string;
  \<^item> \<open>svg2png\<close>: what cairosvg makes of an SVG text, or the error it raises;
  \<^item> \<open>open_writer\<close>: the error with which \<^verbatim>\<open>imageio.get_writer\<close> refuses a file name or
    a duration, if it does (it does so before it creates the file);
  \<^item> \<open>gif_frames\<close>: the frames the encoder stores for the images it was given with
    \<^verbatim>\<open>append_data\<close>, in order (imageio's GIF encoder merges an image that equals the one
    before it into that one);
  \<^item> \<open>gifsicle\<close>: what \<^verbatim>\<open>pygifsicle.optimize\<close> does with the source's content, given the
    source and destination names: the error it raises (a name that does not end in
    \<^verbatim>\<open>.gif\<close>, no gifsicle on the system), or no output (gifsicle fails, and pygifsicle
    drops its exit status), or the optimised content;
  \<^item> \<open>scandir\<close>: the order in which a directory's entries are enumerated.
\<close>

record ('g, 'm, 'b, 'i) lib =
  read_game :: "string \<Rightarrow> 'g option"
  board :: "'g \<Rightarrow> 'b"
  mainline_moves :: "'g \<Rightarrow> 'm list"
  push :: "'b \<Rightarrow> 'm \<Rightarrow> 'b"
  svg_board :: "'b \<Rightarrow> string"
  svg2png :: "string \<Rightarrow> error + 'i"
  open_writer :: "path \<Rightarrow> pyval \<Rightarrow> error option"
  gif_frames :: "'i list \<Rightarrow> 'i list"
  gifsicle :: "path \<Rightarrow> path \<Rightarrow> 'i fdata \<Rightarrow> error + 'i fdata option"
  scandir :: "path list \<Rightarrow> path list"

definition glob :: "('g, 'm, 'b, 'i) lib \<Rightarrow> 'i world \<Rightarrow> path \<Rightarrow> string \<Rightarrow> path list" where
  "glob L w d ext = scandir L (children w d ext)"

text \<open>\<^verbatim>\<open>cairosvg.svg2png(url=..., write_to=...)\<close>: read, convert, write.\<close>

definition cairosvg_svg2png :: "('g, 'm, 'b, 'i) lib \<Rightarrow> path \<Rightarrow> path \<Rightarrow> (unit, 'i) io" where
  "cairosvg_svg2png L src dst =
     bind (read_file src) (\<lambda>c.
       case c of
         Text s \<Rightarrow> (case svg2png L s of
                      Inl e \<Rightarrow> raise e
                    | Inr i \<Rightarrow> write_file dst (Png i))
       | _ \<Rightarrow> raise (LibraryError ''cairosvg''))"

text \<open>\<^verbatim>\<open>imageio.imread(filename)\<close>: the raster a PNG file holds.\<close>

definition imageio_imread :: "path \<Rightarrow> ('i, 'i) io" where
  "imageio_imread p =
     bind (read_file p) (\<lambda>c.
       case c of Png i \<Rightarrow> return i | _ \<Rightarrow> raise (LibraryError ''imageio''))"

text \<open>
  \<^verbatim>\<open>pygifsicle.optimize(source, destination)\<close>. It raises when the source does not exist
  and when the library refuses the names; otherwise it runs gifsicle and returns
  normally whatever the outcome: when gifsicle produces nothing, or cannot read the
  source or write the destination, nothing is written and nothing is raised.
\<close>

definition pygifsicle_optimize :: "('g, 'm, 'b, 'i) lib \<Rightarrow> path \<Rightarrow> path \<Rightarrow> (unit, 'i) io" where
  "pygifsicle_optimize L src dst w =
     (case lookup w src of
        None \<Rightarrow> (if is_dir w src then (Inr (), w) else (Inl (LibraryError ''pygifsicle''), w))
      | Some c \<Rightarrow>
          (case gifsicle L src dst c of
             Inl e \<Rightarrow> (Inl e, w)
           | Inr None \<Rightarrow> (Inr (), w)
           | Inr (Some c') \<Rightarrow>
               (case write_file dst c' w of
                  (Inl e, w') \<Rightarrow> (Inr (), w')
                | (Inr u, w') \<Rightarrow> (Inr u, w'))))"

subsection \<open>The program\<close>

text \<open>\<^verbatim>\<open>read_pgn_file\<close> (lines 15 to 18).\<close>

definition read_pgn_file :: "path \<Rightarrow> (string, 'i) io" where
  "read_pgn_file p =
     bind (read_file p) (\<lambda>c.
       case c of Text s \<Rightarrow> return s | _ \<Rightarrow> raise UnicodeDecodeError)"

text \<open>\<^verbatim>\<open>pgn_to_game\<close> (lines 21 to 24).\<close>

definition pgn_to_game :: "('g, 'm, 'b, 'i) lib \<Rightarrow> string \<Rightarrow> 'g option" where
  "pgn_to_game L pgn = read_game L pgn"

text \<open>\<^verbatim>\<open>save_svg\<close> (lines 40 to 43) and \<^verbatim>\<open>board_to_svg\<close> (lines 35 to 37).\<close>

definition save_svg :: "string \<Rightarrow> path \<Rightarrow> (unit, 'i) io" where
  "save_svg svg_file p =
     bind (mkdir_parents (path_parent p)) (\<lambda>_. write_file p (Text svg_file))"

definition board_to_svg :: "('g, 'm, 'b, 'i) lib \<Rightarrow> 'b \<Rightarrow> path \<Rightarrow> (unit, 'i) io" where
  "board_to_svg L b p = save_svg (svg_board L b) p"

text \<open>
  \<^verbatim>\<open>game_to_svgs\<close> (lines 27 to 32). \<open>svgs_loop\<close> is the \<^verbatim>\<open>for\<close> loop: the board
  so far, the index of the next move, the moves left.
\<close>

fun svgs_loop :: "('g, 'm, 'b, 'i) lib \<Rightarrow> path \<Rightarrow> 'b \<Rightarrow> nat \<Rightarrow> 'm list \<Rightarrow> (unit, 'i) io" where
  "svgs_loop L svg_folder_path b i [] = return ()"
| "svgs_loop L svg_folder_path b i (m # ms) =
     bind (board_to_svg L (push L b m) (svg_folder_path @ [str_nat i @ ''.svg'']))
       (\<lambda>_. svgs_loop L svg_folder_path (push L b m) (Suc i) ms)"

definition game_to_svgs :: "('g, 'm, 'b, 'i) lib \<Rightarrow> 'g \<Rightarrow> path \<Rightarrow> (unit, 'i) io" where
  "game_to_svgs L game svg_folder_path =
     bind (board_to_svg L (board L game) (svg_folder_path @ [''0.svg'']))
       (\<lambda>_. svgs_loop L svg_folder_path (board L game) 1 (mainline_moves L game))"

text \<open>\<^verbatim>\<open>svg_to_png\<close> (lines 46 to 50) and \<^verbatim>\<open>svgs_to_pngs\<close> (lines 53 to 56).\<close>

definition svg_to_png :: "('g, 'm, 'b, 'i) lib \<Rightarrow> path \<Rightarrow> path option \<Rightarrow> (unit, 'i) io" where
  "svg_to_png L svg_path png_path_opt =
     (let png_path = (case png_path_opt of
                        None \<Rightarrow> path_parent svg_path @ [path_stem svg_path @ ''.png'']
                      | Some q \<Rightarrow> q)
      in bind (mkdir_parents (path_parent png_path))
           (\<lambda>_. cairosvg_svg2png L svg_path png_path))"

fun pngs_loop :: "('g, 'm, 'b, 'i) lib \<Rightarrow> path option \<Rightarrow> path list \<Rightarrow> (unit, 'i) io" where
  "pngs_loop L png_folder_path [] = return ()"
| "pngs_loop L png_folder_path (svg_path # rest) =
     bind (svg_to_png L svg_path
             (case png_folder_path of
                Some d \<Rightarrow> Some (d @ [path_stem svg_path @ ''.png''])
              | None \<Rightarrow> None))
       (\<lambda>_. pngs_loop L png_folder_path rest)"

definition svgs_to_pngs :: "('g, 'm, 'b, 'i) lib \<Rightarrow> path \<Rightarrow> path option \<Rightarrow> (unit, 'i) io" where
  "svgs_to_pngs L svg_folder_path png_folder_path w =
     pngs_loop L png_folder_path (glob L w svg_folder_path ''.svg'') w"

text \<open>
  \<^verbatim>\<open>pngs_to_gif\<close> (lines 59 to 81). Line 65 is \<open>png_files\<close>: \<^verbatim>\<open>sorted\<close> computes the key
  \<^verbatim>\<open>int(x.stem)\<close> of every element, in order, and then sorts stably.
\<close>

fun int_keys :: "path list \<Rightarrow> error + (int \<times> path) list" where
  "int_keys [] = Inr []"
| "int_keys (p # ps) =
     (case py_int (path_stem p) of
        Inl e \<Rightarrow> Inl e
      | Inr k \<Rightarrow> (case int_keys ps of Inl e \<Rightarrow> Inl e | Inr kps \<Rightarrow> Inr ((k, p) # kps)))"

definition sorted_by_int_stem :: "path list \<Rightarrow> error + path list" where
  "sorted_by_int_stem ps =
     (case int_keys ps of Inl e \<Rightarrow> Inl e | Inr kps \<Rightarrow> Inr (map snd (sort_key fst kps)))"

definition png_files :: "('g, 'm, 'b, 'i) lib \<Rightarrow> path \<Rightarrow> (path list, 'i) io" where
  "png_files L png_folder_path w =
     (case sorted_by_int_stem (glob L w png_folder_path ''.png'') of
        Inl e \<Rightarrow> (Inl e, w)
      | Inr ps \<Rightarrow> (Inr ps, w))"

text \<open>
  The writer of lines 68 to 71: \<^verbatim>\<open>get_writer\<close> creates (or empties) the file, every
  \<^verbatim>\<open>append_data\<close> hands an image to the encoder, and the file holds the frames the
  encoder stores for the images handed over so far (\<open>acc\<close> and the new one). When
  \<^verbatim>\<open>imread\<close> raises inside the \<^verbatim>\<open>with\<close> block the writer is closed and the file keeps
  what it held.
\<close>

definition get_writer :: "('g, 'm, 'b, 'i) lib \<Rightarrow> path \<Rightarrow> pyval \<Rightarrow> (unit, 'i) io" where
  "get_writer L p d =
     (case open_writer L p d of Some e \<Rightarrow> raise e | None \<Rightarrow> write_file p (Gif [] d))"

definition append_data ::
  "('g, 'm, 'b, 'i) lib \<Rightarrow> path \<Rightarrow> pyval \<Rightarrow> 'i list \<Rightarrow> 'i \<Rightarrow> (unit, 'i) io" where
  "append_data L p d acc img w =
     (Inr (), w\<lparr>files := AList.update p (Gif (gif_frames L (acc @ [img])) d) (files w)\<rparr>)"

fun frames_loop ::
  "('g, 'm, 'b, 'i) lib \<Rightarrow> path \<Rightarrow> pyval \<Rightarrow> 'i list \<Rightarrow> path list \<Rightarrow> (unit, 'i) io" where
  "frames_loop L p d acc [] = return ()"
| "frames_loop L p d acc (filename # rest) =
     bind (imageio_imread filename) (\<lambda>img.
       bind (append_data L p d acc img) (\<lambda>_. frames_loop L p d (acc @ [img]) rest))"

text \<open>Lines 65 to 71.\<close>

definition write_gif :: "('g, 'm, 'b, 'i) lib \<Rightarrow> path \<Rightarrow> path \<Rightarrow> pyval \<Rightarrow> (unit, 'i) io" where
  "write_gif L png_folder_path p d =
     bind (png_files L png_folder_path) (\<lambda>ps.
       bind (mkdir_parents (path_parent p)) (\<lambda>_.
         bind (get_writer L p d) (\<lambda>_. frames_loop L p d [] ps)))"

text \<open>Lines 73 to 81.\<close>

definition optimized_gif_path :: "path \<Rightarrow> path" where
  "optimized_gif_path p = path_parent p @ [path_stem p @ ''_optimized'' @ path_suffix p]"

definition optimize_gif :: "('g, 'm, 'b, 'i) lib \<Rightarrow> path \<Rightarrow> string \<Rightarrow> (unit, 'i) io" where
  "optimize_gif L p opt =
     (if opt = ''new'' then pygifsicle_optimize L p (optimized_gif_path p)
      else if opt = ''overwrite'' then pygifsicle_optimize L p p
      else if opt = ''none'' then return ()
      else raise (UnknownValue opt))"

definition pngs_to_gif ::
  "('g, 'm, 'b, 'i) lib \<Rightarrow> path \<Rightarrow> path \<Rightarrow> pyval \<Rightarrow> string \<Rightarrow> (unit, 'i) io" where
  "pngs_to_gif L png_folder_path p d opt =
     bind (write_gif L png_folder_path p d) (\<lambda>_. optimize_gif L p opt)"

text \<open>
  \<^verbatim>\<open>main\<close> (lines 84 to 106). The command line is what the user typed: two positional
  paths and the two options, each given or not; \<open>parse_args\<close> fills in the defaults of
  lines 92 and 93.
\<close>

record cmdline =
  arg_pgn_path :: path
  arg_gif_path :: path
  opt_duration :: "string option"
  opt_optimized :: "string option"

record args =
  pgn_path :: path
  gif_path :: path
  duration :: pyval
  optimized :: string

definition parse_args :: "cmdline \<Rightarrow> args" where
  "parse_args c =
     \<lparr>pgn_path = arg_pgn_path c,
      gif_path = arg_gif_path c,
      duration = (case opt_duration c of None \<Rightarrow> PyInt 1 | Some s \<Rightarrow> PyStr s),
      optimized = (case opt_optimized c of None \<Rightarrow> ''new'' | Some s \<Rightarrow> s)\<rparr>"

definition temp_path :: path where
  "temp_path = [''temp'']"

definition svg_folder_path :: path where
  "svg_folder_path = temp_path @ [''svg'']"

definition png_folder_path :: path where
  "png_folder_path = temp_path @ [''png'']"

definition main :: "('g, 'm, 'b, 'i) lib \<Rightarrow> cmdline \<Rightarrow> (unit, 'i) io" where
  "main L c =
     (let a = parse_args c in
      bind (read_pgn_file (pgn_path a)) (\<lambda>pgn.
        case pgn_to_game L pgn of
          None \<Rightarrow> print ''Cannot parse pgn file''
        | Some game \<Rightarrow>
            bind (game_to_svgs L game svg_folder_path) (\<lambda>_.
              bind (svgs_to_pngs L svg_folder_path (Some png_folder_path)) (\<lambda>_.
                bind (pngs_to_gif L png_folder_path (gif_path a) (duration a) (optimized a)) (\<lambda>_.
                  rmtree temp_path)))))"

subsection \<open>A small instance of the libraries\<close>

text \<open>
  A game is the list of its moves, one character each, a dash being a null move; a
  board is the list of moves played; its picture is the moves other than null moves,
  between angle brackets; rasterising and optimising tag what they get; the encoder
  merges an image that equals the one before it; every file name and duration is
  accepted; a directory is enumerated backwards.
\<close>

definition demo_lib :: "(string, char, string, string) lib" where
  "demo_lib =
     \<lparr>read_game = (\<lambda>s. if s = [] then None else Some s),
      board = (\<lambda>g. []),
      mainline_moves = (\<lambda>g. g),
      push = (\<lambda>b m. b @ [m]),
      svg_board = (\<lambda>b. ''<'' @ filter (\<lambda>m. m \<noteq> CHR ''-'') b @ ''>''),
      svg2png = (\<lambda>s. Inr (''#'' @ s)),
      open_writer = (\<lambda>p d. None),
      gif_frames = remdups_adj,
      gifsicle = (\<lambda>src dst c. case c of Gif fr d \<Rightarrow> Inr (Some (Gif (map (\<lambda>f. ''~'' @ f) fr) d))
                            | _ \<Rightarrow> Inr None),
      scandir = rev\<rparr>"

definition demo_world :: "string world" where
  "demo_world = \<lparr>files = [([''game.pgn''], Text ''ed'')], dirs = [], stdout = []\<rparr>"

definition demo_cmdline :: cmdline where
  "demo_cmdline =
     \<lparr>arg_pgn_path = [''game.pgn''], arg_gif_path = [''out'', ''game.gif''],
      opt_duration = None, opt_optimized = Some ''none''\<rparr>"

definition empty_world :: "string world" where
  "empty_world = \<lparr>files = [([''game.pgn''], Text [])], dirs = [], stdout = []\<rparr>"

definition bogus_cmdline :: cmdline where
  "bogus_cmdline = demo_cmdline\<lparr>opt_optimized := Some ''bogus''\<rparr>"

definition staged_world :: "string world" where
  "staged_world =
     \<lparr>files = [([''temp'', ''png'', ''10.png''], Png ''c''),
               ([''temp'', ''png'', ''9.png''], Png ''b''),
               ([''temp'', ''png'', ''0.png''], Png ''a'')],
      dirs = [[''temp''], [''temp'', ''png'']], stdout = []\<rparr>"

definition staged_done :: "string world" where
  "staged_done = staged_world\<lparr>files :=
     files staged_world @ [([''out.gif''], Gif [''a'', ''b'', ''c''] (PyInt 1))]\<rparr>"



text \<open>The value of a string of digits, read from the left.\<close>

definition dec_val :: "nat \<Rightarrow> string \<Rightarrow> nat" where
  "dec_val acc ds = foldl (\<lambda>a c. a * 10 + the (digit_val c)) acc ds"

subsection \<open>Notions the claims are stated with\<close>

text \<open>
  The file of frame \<open>k\<close> in a staging folder, the board after the first \<open>k\<close> mainline
  moves, a path at which a file can be written once its parents exist (it is not a
  directory and no ancestor is a regular file), and a staging area with nothing in it
  that the globs of lines 54 and 65 would pick up, no regular file in the place of its
  folders, and \<^verbatim>\<open>temp\<close> there when \<^verbatim>\<open>temp/svg\<close> is.
\<close>

definition numbered :: "path \<Rightarrow> string \<Rightarrow> nat \<Rightarrow> path" where
  "numbered folder ext k = folder @ [str_nat k @ ext]"

definition board_after :: "('g, 'm, 'b, 'i) lib \<Rightarrow> 'g \<Rightarrow> nat \<Rightarrow> 'b" where
  "board_after L game k = foldl (push L) (board L game) (take k (mainline_moves L game))"

definition free_slot :: "'i world \<Rightarrow> path \<Rightarrow> bool" where
  "free_slot w p \<longleftrightarrow> \<not> is_dir w p \<and> \<not> file_on_way w p"

definition clean_staging :: "'i world \<Rightarrow> bool" where
  "clean_staging w \<longleftrightarrow>
     children w svg_folder_path ''.svg'' = [] \<and> children w png_folder_path ''.png'' = []
     \<and> \<not> is_file w temp_path \<and> \<not> is_file w svg_folder_path \<and> \<not> is_file w png_folder_path
     \<and> (is_dir w svg_folder_path \<longrightarrow> is_dir w temp_path)"

text \<open>
  Reading a game back from pictures: \<open>replay mv\<close> turns a sequence of positions into
  the moves between neighbours, \<open>mv a b\<close> being the move that leads from \<open>a\<close> to \<open>b\<close>.
\<close>

fun replay :: "('b \<Rightarrow> 'b \<Rightarrow> 'm) \<Rightarrow> 'b list \<Rightarrow> 'm list" where
  "replay mv (a # b # bs) = mv a b # replay mv (b # bs)"
| "replay mv [a] = []"
| "replay mv [] = []"

text \<open>More inputs for the small instance.\<close>

definition demo_step :: "string \<Rightarrow> string \<Rightarrow> char" where
  "demo_step p q = last (butlast q)"

definition two_games_world :: "string world" where
  "two_games_world =
     \<lparr>files = [([''game.pgn''], Text ''ed''), ([''long.pgn''], Text ''abcd'')],
      dirs = [], stdout = []\<rparr>"

definition first_cmdline :: cmdline where
  "first_cmdline =
     \<lparr>arg_pgn_path = [''long.pgn''], arg_gif_path = [''out'', ''long.gif''],
      opt_duration = None, opt_optimized = Some ''bogus''\<rparr>"



definition blocked_cmdline :: cmdline where
  "blocked_cmdline =
     \<lparr>arg_pgn_path = [''long.pgn''], arg_gif_path = [''game.pgn'', ''long.gif''],
      opt_duration = None, opt_optimized = Some ''none''\<rparr>"

text \<open>
  Two more instances of the libraries: one whose gifsicle run produces nothing, and
  one whose encoder refuses a duration that is a string.
\<close>

definition quiet_lib :: "(string, char, string, string) lib" where
  "quiet_lib = demo_lib\<lparr>gifsicle := (\<lambda>src dst c. Inr None)\<rparr>"

definition strict_lib :: "(string, char, string, string) lib" where
  "strict_lib =
     demo_lib\<lparr>open_writer :=
       (\<lambda>p d. case d of PyInt n \<Rightarrow> None | PyStr s \<Rightarrow> Some (LibraryError ''imageio''))\<rparr>"

definition two_sec_cmdline :: cmdline where
  "two_sec_cmdline = demo_cmdline\<lparr>opt_duration := Some ''2''\<rparr>"

definition null_move_world :: "string world" where
  "null_move_world = \<lparr>files = [([''game.pgn''], Text ''e-d'')], dirs = [], stdout = []\<rparr>"

definition dir_world :: "string world" where
  "dir_world = staged_world\<lparr>dirs := dirs staged_world @ [[''out_optimized.gif'']]\<rparr>"

section \<open>Basic facts\<close>

lemma bind_Inl: "m w = (Inl e, w') \<Longrightarrow> bind m f w = (Inl e, w')"
  by (simp add: bind_def)

lemma bind_Inr: "m w = (Inr x, w') \<Longrightarrow> bind m f w = f x w'"
  by (simp add: bind_def)

lemma bind_InrE:
  assumes "bind m f w = (Inr y, w'')"
  obtains x w' where "m w = (Inr x, w')" and "f x w' = (Inr y, w'')"
  using assms by (auto simp: bind_def split: prod.splits sum.splits)


lemma read_file_Some: "lookup w p = Some c \<Longrightarrow> read_file p w = (Inr c, w)"
  by (simp add: read_file_def)

lemma read_pgn_file_world: "snd (read_pgn_file p w) = w"
  by (simp add: read_pgn_file_def bind_def read_file_def raise_def return_def
      split: option.splits fdata.splits)

lemma read_pgn_file_Text: "lookup w p = Some (Text s) \<Longrightarrow> read_pgn_file p w = (Inr s, w)"
  by (simp add: read_pgn_file_def bind_def read_file_def return_def)

lemma lookup_update [simp]:
  "lookup (w\<lparr>files := AList.update p c (files w)\<rparr>) q = (if q = p then Some c else lookup w q)"
  by (simp add: lookup_def update_conv')

lemma is_dir_files [simp]: "is_dir (w\<lparr>files := fs\<rparr>) q = is_dir w q"
  by (simp add: is_dir_def)

lemma lookup_dirs [simp]: "lookup (w\<lparr>dirs := ds\<rparr>) q = lookup w q"
  by (simp add: lookup_def)

lemma os_mkdir_files: "files (snd (os_mkdir p w)) = files w"
  by (simp add: os_mkdir_def)

lemma mkdir_exist_ok_files: "files (snd (mkdir_exist_ok p w)) = files w"
  by (simp add: mkdir_exist_ok_def os_mkdir_def)

lemma mkdir_parents_files: "files (snd (mkdir_parents p w)) = files w"
proof (induction p w rule: mkdir_parents.induct)
  case (1 p w)
  show ?case
  proof (cases "os_mkdir p w")
    case (Pair r w')
    have w': "files w' = files w" using os_mkdir_files [of p w] Pair by simp
    show ?thesis
    proof (cases r)
      case (Inr u)
      with Pair w' show ?thesis by (subst mkdir_parents.simps) simp
    next
      case (Inl e)
      show ?thesis
      proof (cases "e = FileNotFoundError \<and> p \<noteq> []")
        case False
        with Pair Inl w' show ?thesis by (subst mkdir_parents.simps) auto
      next
        case True
        have ih: "files (snd (mkdir_parents (path_parent p) w')) = files w'"
          using "1.IH" [OF Pair [symmetric] Inl] True by simp
        show ?thesis
          using Pair Inl True ih w' mkdir_exist_ok_files [of p "snd (mkdir_parents (path_parent p) w')"]
          by (subst mkdir_parents.simps) (auto split: prod.splits sum.splits)
      qed
    qed
  qed
qed

lemma write_file_Inr:
  "write_file p c w = (Inr u, w') \<Longrightarrow>
     w' = w\<lparr>files := AList.update p c (files w)\<rparr> \<and> \<not> is_dir w p \<and> \<not> file_on_way w p
     \<and> is_dir w (path_parent p)"
  by (auto simp: write_file_def split: if_splits)

lemma file_on_way_update_self [simp]:
  "file_on_way (w\<lparr>files := AList.update p c (files w)\<rparr>) p = file_on_way w p"
  by (auto simp: file_on_way_def list_ex_iff is_file_def)

lemma imageio_imread_world: "snd (imageio_imread p w) = w"
  by (simp add: imageio_imread_def bind_def read_file_def raise_def return_def
      split: option.splits fdata.splits)

text \<open>While frames are appended, the animation file holds the frames so far.\<close>

lemma frames_loop_Inr:
  "frames_loop L p d acc ps w = (Inr u, w') \<Longrightarrow> lookup w p = Some (Gif fr0 d) \<Longrightarrow>
     (\<exists>fr. lookup w' p = Some (Gif fr d)) \<and> dirs w' = dirs w
     \<and> (\<forall>q. q \<noteq> p \<longrightarrow> lookup w' q = lookup w q)"
proof (induction ps arbitrary: acc fr0 w)
  case Nil
  then show ?case by (simp add: return_def)
next
  case (Cons f ps)
  from Cons.prems(1) obtain img w1 where
    rd: "imageio_imread f w = (Inr img, w1)" and
    rest: "bind (append_data L p d acc img) (\<lambda>_. frames_loop L p d (acc @ [img]) ps) w1
             = (Inr u, w')"
    by (auto elim: bind_InrE)
  have w1: "w1 = w" using imageio_imread_world [of f w] rd by simp
  let ?w2 = "w\<lparr>files := AList.update p (Gif (gif_frames L (acc @ [img])) d) (files w)\<rparr>"
  from rest w1 have loop: "frames_loop L p d (acc @ [img]) ps ?w2 = (Inr u, w')"
    by (simp add: bind_def append_data_def)
  have "lookup ?w2 p = Some (Gif (gif_frames L (acc @ [img])) d)" by simp
  from Cons.IH [OF loop this] show ?case by simp
qed

lemma write_gif_Inr:
  assumes "write_gif L folder p d w = (Inr u, w1)"
  shows "(\<exists>fr. lookup w1 p = Some (Gif fr d)) \<and> \<not> is_dir w1 p \<and> \<not> file_on_way w1 p
         \<and> is_dir w1 (path_parent p)"
proof -
  from assms obtain ps wa where a: "png_files L folder w = (Inr ps, wa)"
    and b: "bind (mkdir_parents (path_parent p)) (\<lambda>_.
         bind (get_writer L p d) (\<lambda>_. frames_loop L p d [] ps)) wa = (Inr u, w1)"
    unfolding write_gif_def by (erule bind_InrE)
  from b obtain x wb where c: "mkdir_parents (path_parent p) wa = (Inr x, wb)"
    and d: "bind (get_writer L p d) (\<lambda>_. frames_loop L p d [] ps) wb = (Inr u, w1)"
    by (erule bind_InrE)
  from d obtain y wc where e: "get_writer L p d wb = (Inr y, wc)"
    and f: "frames_loop L p d [] ps wc = (Inr u, w1)"
    by (erule bind_InrE)
  from e have wc: "wc = wb\<lparr>files := AList.update p (Gif [] d) (files wb)\<rparr>"
    and nd: "\<not> is_dir wb p" and nf: "\<not> file_on_way wb p" and pd: "is_dir wb (path_parent p)"
    using write_file_Inr [of p "Gif [] d" wb y wc]
    by (simp_all add: get_writer_def raise_def split: option.splits)
  have l: "lookup wc p = Some (Gif [] d)" by (simp add: wc)
  from frames_loop_Inr [OF f l] have
    g: "\<exists>fr. lookup w1 p = Some (Gif fr d)" and h: "dirs w1 = dirs wc"
    and i: "\<forall>q. q \<noteq> p \<longrightarrow> lookup w1 q = lookup wc q" by auto
  have "\<not> is_dir w1 p" "is_dir w1 (path_parent p)"
    using nd pd h by (simp_all add: is_dir_def wc)
  moreover have "\<not> file_on_way w1 p"
  proof -
    have "file_on_way w1 p = file_on_way wc p"
      using i by (auto simp: file_on_way_def list_ex_iff is_file_def)
    then show ?thesis using nf by (simp add: wc)
  qed
  ultimately show ?thesis using g by simp
qed

lemma name_stem_suffix: "name_stem n @ name_suffix n = n"
  by (simp add: name_stem_def name_suffix_def)

lemma optimized_gif_path_neq: "optimized_gif_path p \<noteq> p"
proof
  assume eq: "optimized_gif_path p = p"
  then have "p \<noteq> []" by (auto simp: optimized_gif_path_def)
  then have "last (optimized_gif_path p) = last p" using eq by simp
  then have "path_stem p @ ''_optimized'' @ path_suffix p = path_name p"
    using \<open>p \<noteq> []\<close> by (simp add: optimized_gif_path_def path_name_def)
  then have "length (path_stem p @ ''_optimized'' @ path_suffix p) = length (path_name p)"
    by simp
  moreover have "length (path_stem p) + length (path_suffix p) = length (path_name p)"
    using name_stem_suffix [of "path_name p"]
    by (metis length_append path_stem_def path_suffix_def)
  ultimately show False by simp
qed

lemma file_on_way_sibling:
  "p \<noteq> [] \<Longrightarrow> file_on_way w (path_parent p @ [n]) = file_on_way w p"
proof -
  assume "p \<noteq> []"
  then have len: "length (path_parent p @ [n]) = length p"
    by (simp add: path_parent_def)
  have "take k (path_parent p @ [n]) = take k p" if "k < length p" for k
    using that \<open>p \<noteq> []\<close> by (simp add: path_parent_def take_butlast)
  then show ?thesis
    unfolding file_on_way_def list_ex_iff len by auto
qed


lemma staged_write_gif:
  "write_gif demo_lib png_folder_path [''out.gif''] (PyInt 1) staged_world = (Inr (), staged_done)"
  by code_simp


lemma rmtree_Inr:
  "rmtree d w = (Inr u, w') \<Longrightarrow> \<not> is_under d q \<Longrightarrow> lookup w' q = lookup w q"
proof -
  assume a: "rmtree d w = (Inr u, w')" and b: "\<not> is_under d q"
  from a have w': "files w' = filter (\<lambda>(p, c). \<not> is_under d p) (files w)"
    by (auto simp: rmtree_def split: if_splits)
  have "map_of (filter (\<lambda>(p, c). \<not> is_under d p) xs) q = map_of xs q" for xs :: "(path \<times> 'a fdata) list"
    using b by (induction xs) auto
  with w' show ?thesis by (simp add: lookup_def)
qed

lemma pygifsicle_optimize_keeps:
  "q \<noteq> dst \<Longrightarrow> lookup (snd (pygifsicle_optimize L src dst w)) q = lookup w q"
  by (auto simp: pygifsicle_optimize_def write_file_def
      split: option.splits sum.splits prod.splits if_splits)

lemma optimize_gif_keeps:
  assumes "opt \<noteq> ''overwrite''"
  shows "lookup (snd (optimize_gif L p opt w)) p = lookup w p"
  using assms optimized_gif_path_neq [of p] pygifsicle_optimize_keeps [of p "optimized_gif_path p" L p w]
  by (auto simp: optimize_gif_def return_def raise_def)

subsection \<open>Numerals and names\<close>

lemma digits_distinct: "distinct digits" and digits_length: "length digits = 10"
  by (simp_all add: digits_def)

lemma digit_char_in: "n < 10 \<Longrightarrow> digit_char n \<in> set digits"
  by (simp add: digit_char_def digits_length)

lemma digit_val_char:
  assumes "n < 10"
  shows "digit_val (digit_char n) = Some n"
proof -
  have n: "n < length digits" using assms by (simp add: digits_length)
  have "takeWhile (\<lambda>d. d \<noteq> digits ! n) digits = take n digits"
  proof (rule takeWhile_eq_take_P_nth)
    fix i assume "i < n" "i < length digits"
    then show "digits ! i \<noteq> digits ! n"
      using n digits_distinct by (simp add: nth_eq_iff_index_eq)
  qed simp
  then have "length (takeWhile (\<lambda>d. d \<noteq> digits ! n) digits) = n" using n by simp
  then show ?thesis
    using digit_char_in [OF assms] by (simp add: digit_val_def digit_char_def)
qed

lemma digits_plain:
  "c \<in> set digits \<Longrightarrow> \<not> is_space c \<and> c \<noteq> CHR ''-'' \<and> c \<noteq> CHR ''+'' \<and> c \<noteq> CHR ''_'' \<and> c \<noteq> CHR ''.''"
  by (auto simp: digits_def is_space_def)

lemma str_nat_digits: "set (str_nat n) \<subseteq> set digits"
proof (induction n rule: str_nat.induct)
  case (1 n)
  show ?case
  proof (cases "n < 10")
    case True
    then show ?thesis by (subst str_nat.simps) (simp add: digit_char_in)
  next
    case False
    then show ?thesis using 1 by (subst str_nat.simps) (simp add: digit_char_in)
  qed
qed

lemma str_nat_nonempty: "str_nat n \<noteq> []"
  by (subst str_nat.simps) simp


lemma parse_digits_plain:
  "set ds \<subseteq> set digits \<Longrightarrow> parse_digits ds acc = Some (dec_val acc ds)"
proof (induction ds acc rule: parse_digits.induct)
  case (1 acc)
  then show ?case by (simp add: dec_val_def)
next
  case (2 c acc)
  then show ?case by (auto simp: dec_val_def digit_val_def)
next
  case (3 c d ds acc)
  from "3.prems" have c: "c \<in> set digits" and rest: "set (d # ds) \<subseteq> set digits" by auto
  from c have nu: "c \<noteq> CHR ''_''" using digits_plain by blast
  from c obtain v where v: "digit_val c = Some v" by (auto simp: digit_val_def)
  from "3.IH"(2) [OF nu v rest] show ?case
    using nu v by (simp add: dec_val_def)
qed

lemma dec_val_str_nat: "dec_val 0 (str_nat n) = n"
proof (induction n rule: str_nat.induct)
  case (1 n)
  show ?case
  proof (cases "n < 10")
    case True
    then show ?thesis by (subst str_nat.simps) (simp add: dec_val_def digit_val_char)
  next
    case False
    then have "dec_val 0 (str_nat (n div 10)) = n div 10" using 1 by simp
    then show ?thesis using False
      by (subst str_nat.simps) (simp add: dec_val_def digit_val_char)
  qed
qed

lemma parse_unsigned_plain:
  assumes "s \<noteq> []" and "set s \<subseteq> set digits"
  shows "parse_unsigned s = Some (dec_val 0 s)"
proof -
  from assms obtain c cs where s: "s = c # cs" by (cases s) auto
  with assms have c: "c \<in> set digits" and cs: "set cs \<subseteq> set digits" by auto
  from c obtain v where v: "digit_val c = Some v" by (auto simp: digit_val_def)
  show ?thesis
    using parse_digits_plain [OF cs, of v] v by (simp add: parse_unsigned_def s dec_val_def)
qed

lemma strip_plain:
  assumes "s \<noteq> []" and "\<not> is_space (hd s)" and "\<not> is_space (last s)"
  shows "strip s = s"
proof -
  have a: "dropWhile is_space s = s"
    using assms(1,2) by (cases s) auto
  have "dropWhile is_space (rev s) = rev s"
    using assms(1,3) by (cases "rev s") (auto simp: last_rev [symmetric] hd_rev)
  with a show ?thesis by (simp add: strip_def)
qed

lemma py_int_str_nat: "py_int (str_nat n) = Inr (int n)"
proof -
  let ?s = "str_nat n"
  have ne: "?s \<noteq> []" by (rule str_nat_nonempty)
  have dg: "set ?s \<subseteq> set digits" by (rule str_nat_digits)
  have "hd ?s \<in> set digits" "last ?s \<in> set digits"
    using ne dg by (auto simp: subset_iff)
  then have h: "\<not> is_space (hd ?s)" "\<not> is_space (last ?s)"
    "hd ?s \<noteq> CHR ''-''" "hd ?s \<noteq> CHR ''+''"
    using digits_plain by blast+
  have st: "strip ?s = ?s" using ne h(1,2) by (rule strip_plain)
  obtain c cs where s: "?s = c # cs" using ne by (cases ?s) auto
  have "parse_unsigned (c # cs) = Some n"
    using parse_unsigned_plain [OF ne dg] by (simp add: s [symmetric] dec_val_str_nat)
  moreover have "strip (c # cs) = c # cs" "c \<noteq> CHR ''-''" "c \<noteq> CHR ''+''"
    using st h(3,4) by (simp_all add: s)
  ultimately have "py_int (c # cs) = Inr (int n)"
    by (simp add: py_int_def)
  then show ?thesis by (simp add: s)
qed

lemma str_nat_inject:
  assumes "str_nat a = str_nat b"
  shows "a = b"
proof -
  have "(Inr (int a) :: error + int) = py_int (str_nat a)" by (simp only: py_int_str_nat)
  also have "\<dots> = py_int (str_nat b)" by (simp only: assms)
  also have "\<dots> = Inr (int b)" by (simp only: py_int_str_nat)
  finally show ?thesis by simp
qed

text \<open>The stem of a name that ends in a dot and a dot-free, non-empty extension.\<close>

lemma after_dot_ext:
  "CHR ''.'' \<notin> set e \<Longrightarrow> after_dot (s @ CHR ''.'' # e) = length e"
proof -
  assume e: "CHR ''.'' \<notin> set e"
  have "takeWhile (\<lambda>c. c \<noteq> CHR ''.'') (rev e @ CHR ''.'' # rev s) =
        takeWhile (\<lambda>c. c \<noteq> CHR ''.'') (rev e)"
    by (rule takeWhile_tail) simp
  also have "\<dots> = rev e"
    using e by (auto simp: takeWhile_eq_all_conv)
  finally show ?thesis by (simp add: after_dot_def)
qed

lemma name_stem_ext:
  assumes "CHR ''.'' \<notin> set e" and "e \<noteq> []" and "s \<noteq> []"
  shows "name_stem (s @ CHR ''.'' # e) = s"
  using assms by (simp add: name_stem_def splits_at_dot_def after_dot_ext)

lemma ends_with_append: "ends_with e (s @ e)"
  by (simp add: ends_with_def)

lemma path_stem_numbered:
  "CHR ''.'' \<notin> set e \<Longrightarrow> e \<noteq> [] \<Longrightarrow> path_stem (d @ [str_nat k @ CHR ''.'' # e]) = str_nat k"
  by (simp add: path_stem_def path_name_def name_stem_ext str_nat_nonempty)

subsection \<open>Creating directories\<close>

lemma is_file_cong: "files w' = files w \<Longrightarrow> is_file w' p = is_file w p"
  by (simp add: is_file_def lookup_def)

lemma file_on_way_cong: "files w' = files w \<Longrightarrow> file_on_way w' p = file_on_way w p"
  by (simp add: file_on_way_def is_file_def lookup_def)

lemma file_on_way_snoc:
  "\<not> file_on_way w (xs @ [x]) \<Longrightarrow> \<not> file_on_way w xs \<and> (xs = [] \<or> \<not> is_file w xs)"
proof -
  assume a: "\<not> file_on_way w (xs @ [x])"
  then have b: "\<not> is_file w (take k (xs @ [x]))" if "1 \<le> k" "k < Suc (length xs)" for k
    using that by (auto simp: file_on_way_def list_ex_iff)
  have "\<not> is_file w (take k xs)" if "1 \<le> k" "k < length xs" for k
    using b [of k] that by simp
  then have "\<not> file_on_way w xs" by (auto simp: file_on_way_def list_ex_iff)
  moreover have "\<not> is_file w xs" if "xs \<noteq> []"
    using b [of "length xs"] that by (cases xs) auto
  ultimately show ?thesis by blast
qed

lemma mkdir_parents_nil: "mkdir_parents [] w = (Inr (), w)"
  by (subst mkdir_parents.simps) (simp add: os_mkdir_def is_dir_def)

lemma mkdir_parents_ok:
  assumes "p = [] \<or> \<not> is_file w p" and "\<not> file_on_way w p"
  shows "\<exists>w'. mkdir_parents p w = (Inr (), w') \<and> files w' = files w \<and> stdout w' = stdout w
           \<and> is_dir w' p \<and> set (dirs w) \<subseteq> set (dirs w')
           \<and> set (dirs w') \<subseteq> set (dirs w) \<union> {q. q \<noteq> [] \<and> is_under q p}
           \<and> (\<not> is_dir w p \<longrightarrow> is_dir w' (path_parent p))"
  using assms
proof (induction p arbitrary: w rule: rev_induct)
  case Nil
  show ?case by (simp add: mkdir_parents_nil is_dir_def)
next
  case (snoc x xs)
  let ?p = "xs @ [x]"
  have nf: "\<not> is_file w ?p" and nw: "\<not> file_on_way w ?p" using snoc.prems by auto
  have par: "path_parent ?p = xs" by (simp add: path_parent_def)
  consider (dir) "is_dir w ?p" | (make) "\<not> is_dir w ?p" "is_dir w xs"
    | (deep) "\<not> is_dir w ?p" "\<not> is_dir w xs" by blast
  then show ?case
  proof cases
    case dir
    then have "mkdir_parents ?p w = (Inr (), w)"
      by (subst mkdir_parents.simps) (simp add: os_mkdir_def)
    with dir show ?thesis by auto
  next
    case make
    then have "mkdir_parents ?p w = (Inr (), w\<lparr>dirs := dirs w @ [?p]\<rparr>)"
      using nf nw by (subst mkdir_parents.simps) (simp add: os_mkdir_def par)
    then show ?thesis using make(2) by (auto simp: is_dir_def is_under_def par)
  next
    case deep
    have os: "os_mkdir ?p w = (Inl FileNotFoundError, w)"
      using deep nf nw by (simp add: os_mkdir_def par)
    from file_on_way_snoc [OF nw] have "xs = [] \<or> \<not> is_file w xs" "\<not> file_on_way w xs"
      by auto
    from snoc.IH [OF this] obtain w1 where
      rec: "mkdir_parents xs w = (Inr (), w1)" and f1: "files w1 = files w"
      and s1: "stdout w1 = stdout w" and d1: "is_dir w1 xs"
      and lo: "set (dirs w) \<subseteq> set (dirs w1)"
      and hi: "set (dirs w1) \<subseteq> set (dirs w) \<union> {q. q \<noteq> [] \<and> is_under q xs}"
      by blast
    have "?p \<notin> set (dirs w)" using deep(1) by (simp add: is_dir_def)
    moreover have "\<not> is_under ?p xs" by (auto simp: is_under_def)
    ultimately have nd1: "\<not> is_dir w1 ?p" using hi by (auto simp: is_dir_def)
    have "os_mkdir ?p w1 = (Inr (), w1\<lparr>dirs := dirs w1 @ [?p]\<rparr>)"
      using nd1 d1 nf nw is_file_cong [OF f1] file_on_way_cong [OF f1]
      by (simp add: os_mkdir_def par)
    then have "mkdir_exist_ok ?p w1 = (Inr (), w1\<lparr>dirs := dirs w1 @ [?p]\<rparr>)"
      by (simp add: mkdir_exist_ok_def)
    then have res: "mkdir_parents ?p w = (Inr (), w1\<lparr>dirs := dirs w1 @ [?p]\<rparr>)"
      using os rec by (subst mkdir_parents.simps) (simp add: par)
    have "is_under q xs \<Longrightarrow> is_under q ?p" for q
      by (auto simp: is_under_def) (metis append_eq_conv_conj length_take min.cobounded1 min_def take_append take_all)
    then show ?thesis
      using res f1 s1 lo hi d1 by (auto simp: is_dir_def is_under_def par)
  qed
qed

lemma write_file_ok:
  "\<not> is_dir w p \<Longrightarrow> \<not> file_on_way w p \<Longrightarrow> is_dir w (path_parent p) \<Longrightarrow>
     write_file p c w = (Inr (), w\<lparr>files := AList.update p c (files w)\<rparr>)"
  by (simp add: write_file_def)

lemma mkdir_then:
  assumes "\<not> is_dir w p" and "\<not> file_on_way w p"
  shows "\<exists>w1. mkdir_parents (path_parent p) w = (Inr (), w1) \<and> files w1 = files w
           \<and> stdout w1 = stdout w \<and> is_dir w1 (path_parent p) \<and> \<not> is_dir w1 p
           \<and> \<not> file_on_way w1 p \<and> set (dirs w) \<subseteq> set (dirs w1)
           \<and> set (dirs w1) \<subseteq> set (dirs w) \<union> {q. q \<noteq> [] \<and> is_under q (path_parent p)}
           \<and> (\<not> is_dir w (path_parent p) \<longrightarrow> is_dir w1 (path_parent (path_parent p)))"
proof -
  from assms(1) have ne: "p \<noteq> []" by (auto simp: is_dir_def)
  then have p: "p = path_parent p @ [last p]" by (simp add: path_parent_def)
  from assms(2) have "\<not> file_on_way w (path_parent p @ [last p])" using p by simp
  from file_on_way_snoc [OF this] have
    "path_parent p = [] \<or> \<not> is_file w (path_parent p)" "\<not> file_on_way w (path_parent p)"
    by auto
  from mkdir_parents_ok [OF this] obtain w1 where
    m: "mkdir_parents (path_parent p) w = (Inr (), w1)" and f: "files w1 = files w"
    and s: "stdout w1 = stdout w" and d: "is_dir w1 (path_parent p)"
    and lo: "set (dirs w) \<subseteq> set (dirs w1)"
    and hi: "set (dirs w1) \<subseteq> set (dirs w) \<union> {q. q \<noteq> [] \<and> is_under q (path_parent p)}"
    and up: "\<not> is_dir w (path_parent p) \<longrightarrow> is_dir w1 (path_parent (path_parent p))"
    by blast
  have "\<not> is_under p (path_parent p)"
  proof
    assume "is_under p (path_parent p)"
    then have "take (length p) (butlast p) = p" by (simp add: is_under_def path_parent_def)
    then have "length (take (length p) (butlast p)) = length p" by simp
    moreover have "length (take (length p) (butlast p)) \<le> length p - 1"
      by simp
    moreover have "0 < length p" using ne by simp
    ultimately show False by arith
  qed
  then have "\<not> is_dir w1 p" using assms(1) hi ne by (auto simp: is_dir_def)
  moreover have "\<not> file_on_way w1 p" using assms(2) file_on_way_cong [OF f] by simp
  ultimately show ?thesis using m f s d lo hi up by blast
qed

lemma mkdir_then_write:
  assumes "\<not> is_dir w p" and "\<not> file_on_way w p"
  shows "\<exists>w1. mkdir_parents (path_parent p) w = (Inr (), w1) \<and> files w1 = files w
           \<and> stdout w1 = stdout w \<and> is_dir w1 (path_parent p)
           \<and> set (dirs w) \<subseteq> set (dirs w1)
           \<and> set (dirs w1) \<subseteq> set (dirs w) \<union> {q. q \<noteq> [] \<and> is_under q (path_parent p)}
           \<and> (\<not> is_dir w (path_parent p) \<longrightarrow> is_dir w1 (path_parent (path_parent p)))
           \<and> bind (mkdir_parents (path_parent p)) (\<lambda>_. write_file p c) w =
               (Inr (), w1\<lparr>files := AList.update p c (files w)\<rparr>)"
proof -
  from mkdir_then [OF assms] obtain w1 where
    m: "mkdir_parents (path_parent p) w = (Inr (), w1)" and f: "files w1 = files w"
    and s: "stdout w1 = stdout w" and d: "is_dir w1 (path_parent p)" and nd: "\<not> is_dir w1 p"
    and nw: "\<not> file_on_way w1 p" and lo: "set (dirs w) \<subseteq> set (dirs w1)"
    and hi: "set (dirs w1) \<subseteq> set (dirs w) \<union> {q. q \<noteq> [] \<and> is_under q (path_parent p)}"
    and up: "\<not> is_dir w (path_parent p) \<longrightarrow> is_dir w1 (path_parent (path_parent p))"
    by blast
  have "bind (mkdir_parents (path_parent p)) (\<lambda>_. write_file p c) w =
          (Inr (), w1\<lparr>files := AList.update p c (files w)\<rparr>)"
    using m write_file_ok [OF nd nw d, of c] f by (simp add: bind_def)
  with m f s d lo hi up show ?thesis by blast
qed

lemma lookup_written [simp]:
  "lookup (w1\<lparr>files := AList.update p c fs\<rparr>) p = Some c"
  by (simp add: lookup_def update_conv')

lemma png_files_world: "snd (png_files L folder w) = w"
  by (simp add: png_files_def split: sum.splits)

lemma png_files_same: "png_files L folder w = (r, w') \<Longrightarrow> w' = w"
  using png_files_world [of L folder w] by simp

subsection \<open>One step, and the loops\<close>

lemma str_nat_0: "str_nat 0 = ''0''"
  by (subst str_nat.simps) (simp add: digit_char_def digits_def)

lemma numbered_0: "folder @ [''0.svg''] = numbered folder ''.svg'' 0"
  by (simp add: numbered_def str_nat_0)

lemma numbered_inject [simp]: "numbered d e j = numbered d e k \<longleftrightarrow> j = k"
  by (auto simp: numbered_def dest: str_nat_inject)

lemma numbered_props [simp]:
  "numbered d e k \<noteq> []" "path_parent (numbered d e k) = d"
  "length (numbered d e k) = Suc (length d)"
  "path_name (numbered d e k) = str_nat k @ e"
  by (simp_all add: numbered_def path_parent_def path_name_def)

lemma numbered_take: "j \<le> length d \<Longrightarrow> take j (numbered d e k) = take j d"
  by (simp add: numbered_def)

lemma png_neq_svg [simp]: "numbered d ''.png'' j \<noteq> numbered d' ''.svg'' k"
proof
  assume "numbered d ''.png'' j = numbered d' ''.svg'' k"
  then have "last (numbered d ''.png'' j) = last (numbered d' ''.svg'' k)" by simp
  then have "str_nat j @ ''.png'' = str_nat k @ ''.svg''" by (simp add: numbered_def)
  then have "''.png'' = ''.svg''"
    by (metis append_eq_append_conv length_Cons)
  then show False by simp
qed

lemma path_stem_svg [simp]: "path_stem (numbered d ''.svg'' k) = str_nat k"
  using path_stem_numbered [of "''svg''" d k] by (simp add: numbered_def)

lemma path_stem_png [simp]: "path_stem (numbered d ''.png'' k) = str_nat k"
  using path_stem_numbered [of "''png''" d k] by (simp add: numbered_def)

lemma ends_with_numbered [simp]: "ends_with e (path_name (numbered d e k))"
  by (simp add: ends_with_append)

text \<open>A free slot stays free when other files and the folders above are written.\<close>

lemma free_slot_step:
  assumes "free_slot w p" and "p \<notin> D" and "set (dirs w') \<subseteq> set (dirs w) \<union> D"
    and "\<And>k. 1 \<le> k \<Longrightarrow> k < length p \<Longrightarrow> lookup w' (take k p) = lookup w (take k p)"
  shows "free_slot w' p"
proof -
  from assms(1) have nd: "\<not> is_dir w p" and nw: "\<not> file_on_way w p"
    by (simp_all add: free_slot_def)
  have "\<not> is_dir w' p" using nd assms(2,3) by (auto simp: is_dir_def)
  moreover have "\<not> file_on_way w' p"
    using nw assms(4) by (auto simp: file_on_way_def list_ex_iff is_file_def)
  ultimately show ?thesis by (simp add: free_slot_def)
qed

lemma not_under_longer: "length d < length p \<Longrightarrow> \<not> is_under p d"
  by (auto simp: is_under_def dest: arg_cong [where f = length])

lemma save_svg_step:
  assumes "free_slot w p"
  shows "\<exists>w'. save_svg s p w = (Inr (), w') \<and> stdout w' = stdout w
           \<and> set (dirs w) \<subseteq> set (dirs w')
           \<and> set (dirs w') \<subseteq> set (dirs w) \<union> {q. q \<noteq> [] \<and> is_under q (path_parent p)}
           \<and> (\<forall>q. lookup w' q = (if q = p then Some (Text s) else lookup w q))
           \<and> is_dir w' (path_parent p)
           \<and> (\<not> is_dir w (path_parent p) \<longrightarrow> is_dir w' (path_parent (path_parent p)))"
proof -
  from assms have a: "\<not> is_dir w p" "\<not> file_on_way w p" by (simp_all add: free_slot_def)
  from mkdir_then_write [OF a, of "Text s"] obtain w1 where
    f: "files w1 = files w" and st: "stdout w1 = stdout w"
    and d: "is_dir w1 (path_parent p)"
    and up: "\<not> is_dir w (path_parent p) \<longrightarrow> is_dir w1 (path_parent (path_parent p))"
    and lo: "set (dirs w) \<subseteq> set (dirs w1)"
    and hi: "set (dirs w1) \<subseteq> set (dirs w) \<union> {q. q \<noteq> [] \<and> is_under q (path_parent p)}"
    and r: "save_svg s p w = (Inr (), w1\<lparr>files := AList.update p (Text s) (files w)\<rparr>)"
    by (auto simp: save_svg_def)
  have "lookup (w1\<lparr>files := AList.update p (Text s) (files w)\<rparr>) q
          = (if q = p then Some (Text s) else lookup w q)" for q
    by (simp add: lookup_def update_conv')
  with r st lo hi d up show ?thesis by auto
qed

lemma svg_to_png_step:
  assumes "free_slot w p" and "lookup w src = Some (Text s)" and "svg2png L s = Inr i"
  shows "\<exists>w'. svg_to_png L src (Some p) w = (Inr (), w') \<and> stdout w' = stdout w
           \<and> set (dirs w) \<subseteq> set (dirs w')
           \<and> set (dirs w') \<subseteq> set (dirs w) \<union> {q. q \<noteq> [] \<and> is_under q (path_parent p)}
           \<and> (\<forall>q. lookup w' q = (if q = p then Some (Png i) else lookup w q))"
proof -
  from assms(1) have a: "\<not> is_dir w p" "\<not> file_on_way w p" by (simp_all add: free_slot_def)
  from mkdir_then [OF a] obtain w1 where
    m: "mkdir_parents (path_parent p) w = (Inr (), w1)" and f: "files w1 = files w"
    and st: "stdout w1 = stdout w"
    and d: "is_dir w1 (path_parent p)" and nd: "\<not> is_dir w1 p" and nw: "\<not> file_on_way w1 p"
    and lo: "set (dirs w) \<subseteq> set (dirs w1)"
    and hi: "set (dirs w1) \<subseteq> set (dirs w) \<union> {q. q \<noteq> [] \<and> is_under q (path_parent p)}"
    by blast
  let ?w' = "w1\<lparr>files := AList.update p (Png i) (files w1)\<rparr>"
  have "lookup w1 src = Some (Text s)" using assms(2) f by (simp add: lookup_def)
  then have "cairosvg_svg2png L src p w1 = (Inr (), ?w')"
    using assms(3) write_file_ok [OF nd nw d]
    by (simp add: cairosvg_svg2png_def bind_def read_file_Some)
  then have r: "svg_to_png L src (Some p) w = (Inr (), ?w')"
    using m by (simp add: svg_to_png_def bind_def)
  have "lookup ?w' q = (if q = p then Some (Png i) else lookup w q)" for q
    using f by (simp add: lookup_def update_conv')
  with r st lo hi show ?thesis by auto
qed

lemma free_numbered_step:
  assumes fs: "\<forall>k. free_slot w (numbered d e k)"
    and hi: "set (dirs w') \<subseteq> set (dirs w) \<union> {q. q \<noteq> [] \<and> is_under q d}"
    and lk: "\<forall>q. length q \<le> length d \<longrightarrow> lookup w' q = lookup w q"
  shows "\<forall>k. free_slot w' (numbered d e k)"
proof
  fix k
  show "free_slot w' (numbered d e k)"
  proof (rule free_slot_step [OF _ _ hi])
    show "free_slot w (numbered d e k)" using fs by simp
    show "numbered d e k \<notin> {q. q \<noteq> [] \<and> is_under q d}"
      by (simp add: not_under_longer)
    fix j assume "1 \<le> j" "j < length (numbered d e k)"
    then show "lookup w' (take j (numbered d e k)) = lookup w (take j (numbered d e k))"
      using lk by simp
  qed
qed

lemma svgs_loop_ok:
  assumes "\<forall>k. free_slot w (numbered d ''.svg'' k)"
  shows "\<exists>w'. svgs_loop L d b i ms w = (Inr (), w') \<and> stdout w' = stdout w
           \<and> set (dirs w) \<subseteq> set (dirs w')
           \<and> set (dirs w') \<subseteq> set (dirs w) \<union> {q. q \<noteq> [] \<and> is_under q d}
           \<and> (\<forall>k<length ms. lookup w' (numbered d ''.svg'' (i + k)) =
                 Some (Text (svg_board L (foldl (push L) b (take (Suc k) ms)))))
           \<and> (\<forall>q. q \<notin> numbered d ''.svg'' ` {i..<i + length ms} \<longrightarrow> lookup w' q = lookup w q)"
  using assms
proof (induction ms arbitrary: b i w)
  case Nil
  then show ?case by (simp add: return_def)
next
  case (Cons m ms)
  let ?p = "numbered d ''.svg'' i"
  let ?b = "push L b m"
  from Cons.prems have "free_slot w ?p" by simp
  from save_svg_step [OF this, of "svg_board L ?b"] obtain w1 where
    s1: "save_svg (svg_board L ?b) ?p w = (Inr (), w1)" and o1: "stdout w1 = stdout w"
    and lo1: "set (dirs w) \<subseteq> set (dirs w1)"
    and hi1: "set (dirs w1) \<subseteq> set (dirs w) \<union> {q. q \<noteq> [] \<and> is_under q d}"
    and lk1: "\<forall>q. lookup w1 q = (if q = ?p then Some (Text (svg_board L ?b)) else lookup w q)"
    by auto
  have "\<forall>q. length q \<le> length d \<longrightarrow> lookup w1 q = lookup w q"
    using lk1 by auto
  from free_numbered_step [OF Cons.prems hi1 this]
  have fs1: "\<forall>k. free_slot w1 (numbered d ''.svg'' k)" .
  from Cons.IH [OF fs1, of ?b "Suc i"] obtain w' where
    r: "svgs_loop L d ?b (Suc i) ms w1 = (Inr (), w')" and o: "stdout w' = stdout w1"
    and lo: "set (dirs w1) \<subseteq> set (dirs w')"
    and hi: "set (dirs w') \<subseteq> set (dirs w1) \<union> {q. q \<noteq> [] \<and> is_under q d}"
    and fr: "\<forall>k<length ms. lookup w' (numbered d ''.svg'' (Suc i + k)) =
                 Some (Text (svg_board L (foldl (push L) ?b (take (Suc k) ms))))"
    and ot: "\<forall>q. q \<notin> numbered d ''.svg'' ` {Suc i..<Suc i + length ms} \<longrightarrow>
                 lookup w' q = lookup w1 q"
    by blast
  have run: "svgs_loop L d b i (m # ms) w = (Inr (), w')"
    using s1 r by (simp add: bind_def board_to_svg_def numbered_def)
  have frames: "lookup w' (numbered d ''.svg'' (i + k)) =
                 Some (Text (svg_board L (foldl (push L) b (take (Suc k) (m # ms)))))"
    if "k < length (m # ms)" for k
  proof (cases k)
    case 0
    have "?p \<notin> numbered d ''.svg'' ` {Suc i..<Suc i + length ms}" by auto
    then have "lookup w' ?p = lookup w1 ?p" using ot by blast
    then show ?thesis using lk1 0 by simp
  next
    case (Suc j)
    then have "j < length ms" using that by simp
    then show ?thesis using fr Suc by simp
  qed
  have others: "lookup w' q = lookup w q"
    if "q \<notin> numbered d ''.svg'' ` {i..<i + length (m # ms)}" for q
  proof -
    have "q \<noteq> ?p" using that by auto
    moreover have "q \<notin> numbered d ''.svg'' ` {Suc i..<Suc i + length ms}"
      using that by auto
    ultimately show ?thesis using ot lk1 by simp
  qed
  show ?case
    using run o o1 lo lo1 hi hi1 frames others by (intro exI [of _ w']) auto
qed

lemma game_to_svgs_ok:
  assumes "\<forall>k. free_slot w (numbered d ''.svg'' k)"
  shows "\<exists>w'. game_to_svgs L g d w = (Inr (), w') \<and> stdout w' = stdout w
           \<and> set (dirs w) \<subseteq> set (dirs w')
           \<and> set (dirs w') \<subseteq> set (dirs w) \<union> {q. q \<noteq> [] \<and> is_under q d}
           \<and> (\<forall>k\<le>length (mainline_moves L g). lookup w' (numbered d ''.svg'' k) =
                 Some (Text (svg_board L (board_after L g k))))
           \<and> (\<forall>q. q \<notin> numbered d ''.svg'' ` {0..length (mainline_moves L g)} \<longrightarrow>
                 lookup w' q = lookup w q)
           \<and> is_dir w' d \<and> (\<not> is_dir w d \<longrightarrow> is_dir w' (path_parent d))"
proof -
  let ?p = "numbered d ''.svg'' 0"
  let ?ms = "mainline_moves L g"
  let ?b = "board L g"
  from assms have "free_slot w ?p" by simp
  from save_svg_step [OF this, of "svg_board L ?b"] obtain w1 where
    s1: "save_svg (svg_board L ?b) ?p w = (Inr (), w1)" and o1: "stdout w1 = stdout w"
    and lo1: "set (dirs w) \<subseteq> set (dirs w1)"
    and hi1: "set (dirs w1) \<subseteq> set (dirs w) \<union> {q. q \<noteq> [] \<and> is_under q d}"
    and lk1: "\<forall>q. lookup w1 q = (if q = ?p then Some (Text (svg_board L ?b)) else lookup w q)"
    and d1: "is_dir w1 d" and up1: "\<not> is_dir w d \<longrightarrow> is_dir w1 (path_parent d)"
    by auto
  have "\<forall>q. length q \<le> length d \<longrightarrow> lookup w1 q = lookup w q"
    using lk1 by auto
  from free_numbered_step [OF assms hi1 this]
  have fs1: "\<forall>k. free_slot w1 (numbered d ''.svg'' k)" .
  from svgs_loop_ok [OF fs1, of L ?b 1 ?ms] obtain w' where
    r: "svgs_loop L d ?b 1 ?ms w1 = (Inr (), w')" and o: "stdout w' = stdout w1"
    and lo: "set (dirs w1) \<subseteq> set (dirs w')"
    and hi: "set (dirs w') \<subseteq> set (dirs w1) \<union> {q. q \<noteq> [] \<and> is_under q d}"
    and fr: "\<forall>k<length ?ms. lookup w' (numbered d ''.svg'' (1 + k)) =
                 Some (Text (svg_board L (foldl (push L) ?b (take (Suc k) ?ms))))"
    and ot: "\<forall>q. q \<notin> numbered d ''.svg'' ` {1..<1 + length ?ms} \<longrightarrow>
                 lookup w' q = lookup w1 q"
    by blast
  have run: "game_to_svgs L g d w = (Inr (), w')"
    using s1 r by (simp add: game_to_svgs_def bind_def board_to_svg_def numbered_0)
  have frames: "lookup w' (numbered d ''.svg'' k) = Some (Text (svg_board L (board_after L g k)))"
    if "k \<le> length ?ms" for k
  proof (cases k)
    case 0
    have "?p \<notin> numbered d ''.svg'' ` {1..<1 + length ?ms}" by auto
    then have "lookup w' ?p = lookup w1 ?p" using ot by blast
    then show ?thesis using lk1 0 by (simp add: board_after_def)
  next
    case (Suc j)
    then have "j < length ?ms" using that by simp
    then show ?thesis using fr Suc by (simp add: board_after_def)
  qed
  have others: "lookup w' q = lookup w q"
    if "q \<notin> numbered d ''.svg'' ` {0..length ?ms}" for q
  proof -
    have "q \<noteq> ?p" using that by auto
    moreover have "q \<notin> numbered d ''.svg'' ` {1..<1 + length ?ms}"
      using that by auto
    ultimately show ?thesis using ot lk1 by simp
  qed
  have dirs: "is_dir w' d" "\<not> is_dir w d \<longrightarrow> is_dir w' (path_parent d)"
    using d1 up1 lo by (auto simp: is_dir_def)
  show ?thesis
    using run o o1 lo lo1 hi hi1 frames others dirs by (intro exI [of _ w']) auto
qed

lemma pngs_loop_ok:
  assumes "\<forall>k. free_slot w (numbered pd ''.png'' k)"
    and "\<forall>k\<in>set ks. lookup w (numbered sd ''.svg'' k) = Some (Text (txt k))"
    and "\<forall>k\<in>set ks. svg2png L (txt k) = Inr (img k)"
  shows "\<exists>w'. pngs_loop L (Some pd) (map (numbered sd ''.svg'') ks) w = (Inr (), w')
           \<and> stdout w' = stdout w \<and> set (dirs w) \<subseteq> set (dirs w')
           \<and> set (dirs w') \<subseteq> set (dirs w) \<union> {q. q \<noteq> [] \<and> is_under q pd}
           \<and> (\<forall>k\<in>set ks. lookup w' (numbered pd ''.png'' k) = Some (Png (img k)))
           \<and> (\<forall>q. q \<notin> numbered pd ''.png'' ` set ks \<longrightarrow> lookup w' q = lookup w q)"
  using assms
proof (induction ks arbitrary: w)
  case Nil
  then show ?case by (simp add: return_def)
next
  case (Cons k ks)
  let ?p = "numbered pd ''.png'' k"
  let ?s = "numbered sd ''.svg'' k"
  from Cons.prems have a: "free_slot w ?p" "lookup w ?s = Some (Text (txt k))"
    "svg2png L (txt k) = Inr (img k)" by simp_all
  from svg_to_png_step [OF a] obtain w1 where
    s1: "svg_to_png L ?s (Some ?p) w = (Inr (), w1)" and o1: "stdout w1 = stdout w"
    and lo1: "set (dirs w) \<subseteq> set (dirs w1)"
    and hi1: "set (dirs w1) \<subseteq> set (dirs w) \<union> {q. q \<noteq> [] \<and> is_under q pd}"
    and lk1: "\<forall>q. lookup w1 q = (if q = ?p then Some (Png (img k)) else lookup w q)"
    by auto
  have "\<forall>q. length q \<le> length pd \<longrightarrow> lookup w1 q = lookup w q"
    using lk1 by auto
  from free_numbered_step [OF Cons.prems(1) hi1 this]
  have fs1: "\<forall>j. free_slot w1 (numbered pd ''.png'' j)" .
  have sv1: "\<forall>j\<in>set ks. lookup w1 (numbered sd ''.svg'' j) = Some (Text (txt j))"
    using Cons.prems(2) lk1 by (auto simp: png_neq_svg [symmetric])
  have cv1: "\<forall>j\<in>set ks. svg2png L (txt j) = Inr (img j)" using Cons.prems(3) by simp
  from Cons.IH [OF fs1 sv1 cv1] obtain w' where
    r: "pngs_loop L (Some pd) (map (numbered sd ''.svg'') ks) w1 = (Inr (), w')"
    and o: "stdout w' = stdout w1" and lo: "set (dirs w1) \<subseteq> set (dirs w')"
    and hi: "set (dirs w') \<subseteq> set (dirs w1) \<union> {q. q \<noteq> [] \<and> is_under q pd}"
    and fr: "\<forall>j\<in>set ks. lookup w' (numbered pd ''.png'' j) = Some (Png (img j))"
    and ot: "\<forall>q. q \<notin> numbered pd ''.png'' ` set ks \<longrightarrow> lookup w' q = lookup w1 q"
    by blast
  have run: "pngs_loop L (Some pd) (map (numbered sd ''.svg'') (k # ks)) w = (Inr (), w')"
    using s1 r unfolding numbered_def [of pd] by (simp add: bind_def)
  have frames: "lookup w' (numbered pd ''.png'' j) = Some (Png (img j))" if "j \<in> set (k # ks)" for j
  proof (cases "j \<in> set ks")
    case True
    then show ?thesis using fr by simp
  next
    case False
    then have "j = k" using that by simp
    moreover have "?p \<notin> numbered pd ''.png'' ` set ks" using False \<open>j = k\<close> by auto
    ultimately show ?thesis using ot lk1 by simp
  qed
  have others: "lookup w' q = lookup w q" if "q \<notin> numbered pd ''.png'' ` set (k # ks)" for q
    using that ot lk1 by auto
  show ?case
    using run o o1 lo lo1 hi hi1 frames others by (intro exI [of _ w']) auto
qed

subsection \<open>What a glob finds\<close>

lemma is_file_iff: "is_file w p \<longleftrightarrow> p \<in> fst ` set (files w)"
  by (simp add: is_file_def lookup_def map_of_eq_None_iff)

lemma set_children:
  "set (children w d ext) =
     {p. p \<noteq> [] \<and> path_parent p = d \<and> ends_with ext (path_name p)
         \<and> (is_file w p \<or> p \<in> set (dirs w))}"
  by (auto simp: children_def entries_def is_file_iff)

lemma distinct_children: "distinct (children w d ext)"
  by (simp add: children_def entries_def)

lemma glob_perm:
  assumes "\<forall>xs. mset (scandir L xs) = mset xs"
  shows "set (glob L w d ext) = set (children w d ext)" and "distinct (glob L w d ext)"
proof -
  have m: "mset (glob L w d ext) = mset (children w d ext)"
    using assms by (simp add: glob_def)
  show "set (glob L w d ext) = set (children w d ext)"
    using m by (rule mset_eq_setD)
  show "distinct (glob L w d ext)"
    using m distinct_children [of w d ext] by (metis mset_eq_imp_distinct_iff)
qed

lemma children_empty:
  assumes "children w d ext = []"
  shows "\<not> is_file w (numbered d ext k)" and "numbered d ext k \<notin> set (dirs w)"
proof -
  have "numbered d ext k \<notin> set (children w d ext)" using assms by simp
  then show "\<not> is_file w (numbered d ext k)" and "numbered d ext k \<notin> set (dirs w)"
    by (simp_all add: set_children ends_with_append)
qed

text \<open>The numbered files are all a glob finds in a folder that had nothing of the kind.\<close>

lemma children_numbered:
  assumes empty: "children w d ext = []"
    and new: "\<forall>k\<le>n. is_file w' (numbered d ext k)"
    and old: "\<forall>q. path_parent q = d \<and> q \<notin> numbered d ext ` {0..n} \<longrightarrow> lookup w' q = lookup w q"
    and hi: "set (dirs w') \<subseteq> set (dirs w) \<union> {q. q \<noteq> [] \<and> length q \<le> length d}"
  shows "set (children w' d ext) = numbered d ext ` {0..n}"
proof
  show "numbered d ext ` {0..n} \<subseteq> set (children w' d ext)"
    using new by (auto simp: set_children ends_with_append)
  show "set (children w' d ext) \<subseteq> numbered d ext ` {0..n}"
  proof
    fix q assume q: "q \<in> set (children w' d ext)"
    then have c: "q \<noteq> []" "path_parent q = d" "ends_with ext (path_name q)"
      and e: "is_file w' q \<or> q \<in> set (dirs w')"
      by (simp_all add: set_children)
    have nq: "q \<notin> set (children w d ext)" using empty by simp
    have len: "length q = Suc (length d)"
      using c(1,2) by (cases q rule: rev_cases) (auto simp: path_parent_def)
    show "q \<in> numbered d ext ` {0..n}"
    proof (rule ccontr)
      assume out: "q \<notin> numbered d ext ` {0..n}"
      then have "lookup w' q = lookup w q" using old c(2) by simp
      then have "is_file w' q = is_file w q" by (simp add: is_file_def)
      moreover have "q \<in> set (dirs w') \<Longrightarrow> q \<in> set (dirs w)" using hi len by auto
      ultimately have "is_file w q \<or> q \<in> set (dirs w)" using e by blast
      then have "q \<in> set (children w d ext)" using c by (simp add: set_children)
      with nq show False by simp
    qed
  qed
qed

subsection \<open>Sorting the numbered files\<close>

lemma inj_numbered: "inj (numbered d e)"
  by (rule injI) simp

lemma numbered_list:
  assumes "set ps \<subseteq> range (numbered d e)"
  shows "\<exists>ks. ps = map (numbered d e) ks"
  using assms
proof (induction ps)
  case Nil
  then show ?case by simp
next
  case (Cons p ps)
  then obtain k ks where "p = numbered d e k" "ps = map (numbered d e) ks" by auto
  then have "p # ps = map (numbered d e) (k # ks)" by simp
  then show ?case by (rule exI)
qed

lemma numbered_indices:
  assumes "distinct ps" and "set ps = numbered d e ` {0..n}"
  shows "\<exists>ks. ps = map (numbered d e) ks \<and> distinct ks \<and> set ks = {0..n}"
proof -
  from assms(2) have "set ps \<subseteq> range (numbered d e)" by auto
  from numbered_list [OF this] obtain ks where ks: "ps = map (numbered d e) ks" by blast
  have "distinct ks" using assms(1) ks by (simp add: distinct_map)
  moreover have "numbered d e ` set ks = numbered d e ` {0..n}"
    using assms(2) ks by simp
  then have "set ks = {0..n}"
    using inj_numbered by (simp add: inj_image_eq_iff)
  ultimately show ?thesis using ks by blast
qed

lemma int_keys_numbered:
  "int_keys (map (numbered d ''.png'') ks) = Inr (map (\<lambda>k. (int k, numbered d ''.png'' k)) ks)"
  by (induction ks) (simp_all add: py_int_str_nat)

lemma insort_key_numbered:
  "insort_key fst (int k, f k) (map (\<lambda>k. (int k, f k)) ks) =
     map (\<lambda>k. (int k, f k)) (insort k ks)"
  by (induction ks) simp_all

lemma sort_key_numbered:
  "sort_key fst (map (\<lambda>k. (int k, f k)) ks) = map (\<lambda>k. (int k, f k)) (sort ks)"
  by (induction ks) (simp_all add: insort_key_numbered)

lemma sort_indices:
  assumes "distinct ks" and "set ks = {0..n}"
  shows "sort ks = [0..<Suc n]"
proof (rule sorted_distinct_set_unique)
  show "sorted (sort ks)" by simp
  show "distinct (sort ks)" using assms(1) by simp
  show "sorted [0..<Suc n]" by (rule sorted_upt)
  show "distinct [0..<Suc n]" by (rule distinct_upt)
  have "set [0..<Suc n] = {0..n}"
    by (simp only: set_upt atLeastLessThanSuc_atLeastAtMost)
  then show "set (sort ks) = set [0..<Suc n]"
    by (simp only: set_sort assms(2))
qed

lemma sorted_by_int_stem_numbered:
  assumes "distinct ps" and "set ps = numbered d ''.png'' ` {0..n}"
  shows "sorted_by_int_stem ps = Inr (map (numbered d ''.png'') [0..<Suc n])"
proof -
  from numbered_indices [OF assms] obtain ks where
    ks: "ps = map (numbered d ''.png'') ks" "distinct ks" "set ks = {0..n}" by blast
  have "sorted_by_int_stem ps = Inr (map (numbered d ''.png'') (sort ks))"
    by (simp add: sorted_by_int_stem_def ks(1) int_keys_numbered sort_key_numbered comp_def)
  then show ?thesis using sort_indices [OF ks(2,3)] by simp
qed

subsection \<open>Appending the frames\<close>

lemma imageio_imread_Png: "lookup w p = Some (Png i) \<Longrightarrow> imageio_imread p w = (Inr i, w)"
  by (simp add: imageio_imread_def bind_def read_file_Some return_def)

lemma frames_loop_ok:
  assumes "\<forall>k\<in>set ks. lookup w (pf k) = Some (Png (img k))" and "\<forall>k\<in>set ks. pf k \<noteq> p"
  shows "\<exists>w'. frames_loop L p d acc (map pf ks) w = (Inr (), w') \<and> dirs w' = dirs w
           \<and> stdout w' = stdout w
           \<and> (ks \<noteq> [] \<longrightarrow> lookup w' p = Some (Gif (gif_frames L (acc @ map img ks)) d))
           \<and> (\<forall>q. q \<noteq> p \<longrightarrow> lookup w' q = lookup w q)"
  using assms
proof (induction ks arbitrary: acc w)
  case Nil
  then show ?case by (simp add: return_def)
next
  case (Cons k ks)
  let ?w1 = "w\<lparr>files := AList.update p (Gif (gif_frames L (acc @ [img k])) d) (files w)\<rparr>"
  have rd: "imageio_imread (pf k) w = (Inr (img k), w)"
    using Cons.prems(1) by (simp add: imageio_imread_Png)
  have a: "\<forall>j\<in>set ks. lookup ?w1 (pf j) = Some (Png (img j))"
    using Cons.prems by simp
  have b: "\<forall>j\<in>set ks. pf j \<noteq> p" using Cons.prems(2) by simp
  from Cons.IH [OF a b, of "acc @ [img k]"] obtain w' where
    r: "frames_loop L p d (acc @ [img k]) (map pf ks) ?w1 = (Inr (), w')"
    and dd: "dirs w' = dirs ?w1" and oo: "stdout w' = stdout ?w1"
    and fr: "ks \<noteq> [] \<longrightarrow>
               lookup w' p = Some (Gif (gif_frames L ((acc @ [img k]) @ map img ks)) d)"
    and ot: "\<forall>q. q \<noteq> p \<longrightarrow> lookup w' q = lookup ?w1 q"
    by blast
  have run: "frames_loop L p d acc (map pf (k # ks)) w = (Inr (), w')"
    using rd r by (simp add: bind_def append_data_def)
  have "lookup w' p = Some (Gif (gif_frames L (acc @ map img (k # ks))) d)"
  proof (cases "ks = []")
    case True
    then have "w' = ?w1" using r by (simp add: return_def)
    then show ?thesis using True by simp
  next
    case False
    then show ?thesis using fr by simp
  qed
  then show ?case using run dd oo ot by (intro exI [of _ w']) auto
qed

subsection \<open>A run from a clean staging area\<close>

lemma is_under_length: "is_under q d \<Longrightarrow> length q \<le> length d"
  by (auto simp: is_under_def dest: arg_cong [where f = length])

lemma staging_lengths [simp]:
  "length svg_folder_path = 2" "length png_folder_path = 2" "length temp_path = 1"
  "path_parent svg_folder_path = temp_path" "svg_folder_path \<noteq> png_folder_path"
  by (simp_all add: svg_folder_path_def png_folder_path_def temp_path_def path_parent_def)

lemma under_temp_numbered [simp]:
  "is_under temp_path (numbered svg_folder_path e k)"
  "is_under temp_path (numbered png_folder_path e k)"
  by (simp_all add: is_under_def numbered_def svg_folder_path_def png_folder_path_def temp_path_def)

lemma under_temp_prefix:
  assumes "q \<noteq> []" and "is_under q svg_folder_path \<or> is_under q png_folder_path"
  shows "is_under temp_path q"
  using assms
  by (cases q) (auto simp: is_under_def svg_folder_path_def png_folder_path_def temp_path_def)

lemma under_temp_take:
  assumes "1 \<le> j" and "is_under temp_path (take j p)"
  shows "is_under temp_path p"
proof -
  from assms(2) have "take 1 (take j p) = temp_path" by (simp add: is_under_def)
  moreover have "take 1 (take j p) = take 1 p" using assms(1) by (simp add: min_def)
  ultimately show ?thesis by (simp add: is_under_def)
qed

lemma clean_slots:
  assumes "clean_staging w"
  shows "free_slot w (numbered svg_folder_path ''.svg'' k)"
    and "free_slot w (numbered png_folder_path ''.png'' k)"
proof -
  from assms have e: "children w svg_folder_path ''.svg'' = []"
    "children w png_folder_path ''.png'' = []"
    and f: "\<not> is_file w temp_path" "\<not> is_file w svg_folder_path" "\<not> is_file w png_folder_path"
    by (simp_all add: clean_staging_def)
  have way: "\<not> file_on_way w (numbered d e k)"
    if "length d = 2" "\<not> is_file w (take 1 d)" "\<not> is_file w d" for d e
  proof -
    have "[1..<length (numbered d e k)] = [1, 2]"
      using that(1) by (simp add: upt_rec)
    moreover have "take 1 (numbered d e k) = take 1 d" "take 2 (numbered d e k) = d"
      using that(1) by (simp_all add: numbered_def)
    ultimately show ?thesis using that(2,3) by (simp add: file_on_way_def)
  qed
  have t: "take 1 svg_folder_path = temp_path" "take 1 png_folder_path = temp_path"
    by (simp_all add: svg_folder_path_def png_folder_path_def temp_path_def)
  show "free_slot w (numbered svg_folder_path ''.svg'' k)"
    using children_empty [OF e(1), of k] way [of svg_folder_path "''.svg''"] f t
    by (simp add: free_slot_def is_dir_def)
  show "free_slot w (numbered png_folder_path ''.png'' k)"
    using children_empty [OF e(2), of k] way [of png_folder_path "''.png''"] f t
    by (simp add: free_slot_def is_dir_def)
qed

lemma not_numbered_length: "length q \<noteq> Suc (length d) \<Longrightarrow> q \<notin> numbered d e ` A"
  by auto

lemma pipeline_clean:
  fixes L :: "('g, 'm, 'b, 'i) lib" and w :: "'i world"
  assumes cs: "clean_staging w"
    and perm: "\<forall>xs. mset (scandir L xs) = mset xs"
    and conv: "\<forall>b. svg2png L (svg_board L b) = Inr (raster b)"
    and slot: "free_slot w p"
    and out: "\<not> is_under temp_path p"
    and ow: "open_writer L p d = None"
  shows "\<exists>w1 w2 w3.
      game_to_svgs L g svg_folder_path w = (Inr (), w1)
    \<and> set (glob L w1 svg_folder_path ''.svg'') =
          numbered svg_folder_path ''.svg'' ` {0..length (mainline_moves L g)}
    \<and> distinct (glob L w1 svg_folder_path ''.svg'')
    \<and> svgs_to_pngs L svg_folder_path (Some png_folder_path) w1 = (Inr (), w2)
    \<and> set (glob L w2 png_folder_path ''.png'') =
          numbered png_folder_path ''.png'' ` {0..length (mainline_moves L g)}
    \<and> distinct (glob L w2 png_folder_path ''.png'')
    \<and> png_files L png_folder_path w2 =
          (Inr (map (numbered png_folder_path ''.png'') [0..<Suc (length (mainline_moves L g))]), w2)
    \<and> write_gif L png_folder_path p d w2 = (Inr (), w3)
    \<and> lookup w3 p =
          Some (Gif (gif_frames L (map (\<lambda>k. raster (board_after L g k))
                                    [0..<Suc (length (mainline_moves L g))])) d)
    \<and> stdout w3 = stdout w \<and> is_dir w3 temp_path \<and> \<not> is_file w3 temp_path
    \<and> (\<forall>q. \<not> is_under temp_path q \<and> q \<noteq> p \<longrightarrow> lookup w3 q = lookup w q)"
proof -
  let ?N = "length (mainline_moves L g)"
  let ?S = "numbered svg_folder_path ''.svg''"
  let ?P = "numbered png_folder_path ''.png''"
  let ?txt = "\<lambda>k. svg_board L (board_after L g k)"
  let ?img = "\<lambda>k. raster (board_after L g k)"
  have sS: "\<forall>k. free_slot w (?S k)" and sP: "\<forall>k. free_slot w (?P k)"
    using clean_slots [OF cs] by simp_all
  have eS: "children w svg_folder_path ''.svg'' = []"
    and eP: "children w png_folder_path ''.png'' = []"
    and nft: "\<not> is_file w temp_path"
    and wf: "is_dir w svg_folder_path \<longrightarrow> is_dir w temp_path"
    using cs by (simp_all add: clean_staging_def)
  \<comment> \<open>the SVG stage\<close>
  from game_to_svgs_ok [OF sS, of L g] obtain w1 where
    r1: "game_to_svgs L g svg_folder_path w = (Inr (), w1)"
    and o1: "stdout w1 = stdout w" and lo1: "set (dirs w) \<subseteq> set (dirs w1)"
    and hi1: "set (dirs w1) \<subseteq> set (dirs w) \<union> {q. q \<noteq> [] \<and> is_under q svg_folder_path}"
    and fr1: "\<forall>k\<le>?N. lookup w1 (?S k) = Some (Text (?txt k))"
    and ot1: "\<forall>q. q \<notin> ?S ` {0..?N} \<longrightarrow> lookup w1 q = lookup w q"
    and d1: "is_dir w1 svg_folder_path"
    and up1: "\<not> is_dir w svg_folder_path \<longrightarrow> is_dir w1 (path_parent svg_folder_path)"
    by blast
  have t1: "is_dir w1 temp_path"
  proof (cases "is_dir w svg_folder_path")
    case True
    then have "is_dir w temp_path" using wf by simp
    then show ?thesis using lo1 by (auto simp: is_dir_def)
  next
    case False
    then show ?thesis using up1 by simp
  qed
  have hi1': "set (dirs w1) \<subseteq> set (dirs w) \<union> {q. q \<noteq> [] \<and> length q \<le> length svg_folder_path}"
    using hi1 is_under_length by blast
  have c1: "set (children w1 svg_folder_path ''.svg'') = ?S ` {0..?N}"
  proof (rule children_numbered [OF eS _ _ hi1'])
    show "\<forall>k\<le>?N. is_file w1 (?S k)" using fr1 by (simp add: is_file_def)
    show "\<forall>q. path_parent q = svg_folder_path \<and> q \<notin> ?S ` {0..?N} \<longrightarrow> lookup w1 q = lookup w q"
      using ot1 by simp
  qed
  have g1: "set (glob L w1 svg_folder_path ''.svg'') = ?S ` {0..?N}"
    and g1d: "distinct (glob L w1 svg_folder_path ''.svg'')"
    using glob_perm [OF perm, of w1 svg_folder_path "''.svg''"] c1 by simp_all
  from numbered_indices [OF g1d g1] obtain ks where
    ks: "glob L w1 svg_folder_path ''.svg'' = map ?S ks" and ksN: "set ks = {0..?N}"
    by blast
  \<comment> \<open>the PNG stage\<close>
  have sP1: "\<forall>k. free_slot w1 (?P k)"
  proof
    fix k
    show "free_slot w1 (?P k)"
    proof (rule free_slot_step [OF _ _ hi1])
      show "free_slot w (?P k)" using sP by simp
      show "?P k \<notin> {q. q \<noteq> [] \<and> is_under q svg_folder_path}"
        by (simp add: not_under_longer)
      fix j assume "1 \<le> j" "j < length (?P k)"
      then have "length (take j (?P k)) \<noteq> Suc (length svg_folder_path)" by simp
      then have "take j (?P k) \<notin> ?S ` {0..?N}" by (rule not_numbered_length)
      then show "lookup w1 (take j (?P k)) = lookup w (take j (?P k))" using ot1 by blast
    qed
  qed
  have sv1: "\<forall>k\<in>set ks. lookup w1 (?S k) = Some (Text (?txt k))"
    using fr1 ksN by simp
  have cv1: "\<forall>k\<in>set ks. svg2png L (?txt k) = Inr (?img k)" using conv by simp
  from pngs_loop_ok [OF sP1 sv1 cv1] obtain w2 where
    r2: "pngs_loop L (Some png_folder_path) (map ?S ks) w1 = (Inr (), w2)"
    and o2: "stdout w2 = stdout w1" and lo2: "set (dirs w1) \<subseteq> set (dirs w2)"
    and hi2: "set (dirs w2) \<subseteq> set (dirs w1) \<union> {q. q \<noteq> [] \<and> is_under q png_folder_path}"
    and fr2: "\<forall>k\<in>set ks. lookup w2 (?P k) = Some (Png (?img k))"
    and ot2: "\<forall>q. q \<notin> ?P ` set ks \<longrightarrow> lookup w2 q = lookup w1 q"
    by blast
  have r2': "svgs_to_pngs L svg_folder_path (Some png_folder_path) w1 = (Inr (), w2)"
    using r2 ks by (simp add: svgs_to_pngs_def)
  have far: "lookup w2 q = lookup w q" if "\<not> is_under temp_path q" for q
  proof -
    have "q \<notin> ?P ` set ks" "q \<notin> ?S ` {0..?N}" using that by auto
    then show ?thesis using ot1 ot2 by simp
  qed
  have hi2': "set (dirs w2) \<subseteq> set (dirs w) \<union> {q. q \<noteq> [] \<and> length q \<le> length png_folder_path}"
    using hi1 hi2 is_under_length by fastforce
  have c2: "set (children w2 png_folder_path ''.png'') = ?P ` {0..?N}"
  proof (rule children_numbered [OF eP _ _ hi2'])
    show "\<forall>k\<le>?N. is_file w2 (?P k)" using fr2 ksN by (simp add: is_file_def)
    show "\<forall>q. path_parent q = png_folder_path \<and> q \<notin> ?P ` {0..?N} \<longrightarrow> lookup w2 q = lookup w q"
    proof (intro allI impI)
      fix q assume q: "path_parent q = png_folder_path \<and> q \<notin> ?P ` {0..?N}"
      then have "q \<notin> ?S ` {0..?N}" by auto
      then show "lookup w2 q = lookup w q" using q ot1 ot2 ksN by simp
    qed
  qed
  have g2: "set (glob L w2 png_folder_path ''.png'') = ?P ` {0..?N}"
    and g2d: "distinct (glob L w2 png_folder_path ''.png'')"
    using glob_perm [OF perm, of w2 png_folder_path "''.png''"] c2 by simp_all
  \<comment> \<open>the animation\<close>
  have pf: "png_files L png_folder_path w2 = (Inr (map ?P [0..<Suc ?N]), w2)"
    using sorted_by_int_stem_numbered [OF g2d g2] by (simp add: png_files_def)
  have slot2: "free_slot w2 p"
  proof (rule free_slot_step [OF slot])
    show "set (dirs w2) \<subseteq> set (dirs w) \<union>
            {q. q \<noteq> [] \<and> (is_under q svg_folder_path \<or> is_under q png_folder_path)}"
      using hi1 hi2 by blast
    show "p \<notin> {q. q \<noteq> [] \<and> (is_under q svg_folder_path \<or> is_under q png_folder_path)}"
      using out under_temp_prefix [of p] by blast
    fix j assume "1 \<le> j" "j < length p"
    then have "\<not> is_under temp_path (take j p)" using out under_temp_take by blast
    then show "lookup w2 (take j p) = lookup w (take j p)" by (rule far)
  qed
  then have "\<not> is_dir w2 p" "\<not> file_on_way w2 p" by (simp_all add: free_slot_def)
  from mkdir_then [OF this] obtain wa where
    m: "mkdir_parents (path_parent p) w2 = (Inr (), wa)" and fa: "files wa = files w2"
    and oa: "stdout wa = stdout w2" and da: "is_dir wa (path_parent p)"
    and nda: "\<not> is_dir wa p" and nwa: "\<not> file_on_way wa p"
    and loa: "set (dirs w2) \<subseteq> set (dirs wa)"
    by blast
  let ?wb = "wa\<lparr>files := AList.update p (Gif [] d) (files wa)\<rparr>"
  have gw: "get_writer L p d wa = (Inr (), ?wb)"
    using write_file_ok [OF nda nwa da] ow by (simp add: get_writer_def)
  have la: "lookup wa q = lookup w2 q" for q
    using fa by (simp add: lookup_def)
  have lb: "lookup ?wb q = (if q = p then Some (Gif [] d) else lookup w2 q)" for q
    by (simp add: la)
  have pne: "?P k \<noteq> p" for k using out under_temp_numbered(2) [of "''.png''" k] by auto
  have a: "\<forall>k\<in>set [0..<Suc ?N]. lookup ?wb (?P k) = Some (Png (?img k))"
  proof
    fix k assume "k \<in> set [0..<Suc ?N]"
    then have "k \<in> set ks" using ksN by auto
    then show "lookup ?wb (?P k) = Some (Png (?img k))"
      using fr2 pne [of k] by (simp add: la)
  qed
  have b: "\<forall>k\<in>set [0..<Suc ?N]. ?P k \<noteq> p" using pne by simp
  from frames_loop_ok [OF a b, of L d "[]"] obtain w3 where
    r3: "frames_loop L p d [] (map ?P [0..<Suc ?N]) ?wb = (Inr (), w3)"
    and d3: "dirs w3 = dirs ?wb" and o3: "stdout w3 = stdout ?wb"
    and fr3: "[0..<Suc ?N] \<noteq> [] \<longrightarrow>
                lookup w3 p = Some (Gif (gif_frames L ([] @ map ?img [0..<Suc ?N])) d)"
    and ot3: "\<forall>q. q \<noteq> p \<longrightarrow> lookup w3 q = lookup ?wb q"
    by blast
  have ot3': "\<forall>q. q \<noteq> p \<longrightarrow> lookup w3 q = lookup w2 q"
    using ot3 la by simp
  have wg: "write_gif L png_folder_path p d w2 = (Inr (), w3)"
    using pf m gw r3 by (simp add: write_gif_def bind_def)
  have "[0..<Suc ?N] \<noteq> []" by simp
  then have gif: "lookup w3 p = Some (Gif (gif_frames L (map ?img [0..<Suc ?N])) d)"
    using fr3 by simp
  have o: "stdout w3 = stdout w" using o3 oa o2 o1 by simp
  have t3: "is_dir w3 temp_path"
    using t1 lo2 loa d3 by (auto simp: is_dir_def)
  have tp: "temp_path \<noteq> p" using out by (auto simp: is_under_def)
  have "length temp_path \<noteq> Suc (length png_folder_path)"
    "length temp_path \<noteq> Suc (length svg_folder_path)" by simp_all
  then have "temp_path \<notin> ?P ` set ks" "temp_path \<notin> ?S ` {0..?N}"
    by (simp_all only: not_numbered_length not_False_eq_True)
  then have "lookup w3 temp_path = lookup w temp_path"
    using ot3' tp ot2 ot1 by simp
  then have nf3: "\<not> is_file w3 temp_path" using nft by (simp add: is_file_def)
  have rest: "\<forall>q. \<not> is_under temp_path q \<and> q \<noteq> p \<longrightarrow> lookup w3 q = lookup w q"
    using ot3' far by simp
  show ?thesis
    using r1 g1 g1d r2' g2 g2d pf wg gif o t3 nf3 rest by blast
qed

subsection \<open>The sort key\<close>






lemma rmtree_ok:
  assumes "is_dir w d" and "\<not> is_file w d"
  shows "\<exists>w'. rmtree d w = (Inr (), w')"
  using assms by (simp add: rmtree_def)

lemma numbered_upt: "set (map (numbered d e) [0..<Suc n]) = numbered d e ` {0..n}"
  by (simp only: set_map set_upt atLeastLessThanSuc_atLeastAtMost)

lemma length_numbered:
  assumes "distinct ps" and "set ps = numbered d e ` {0..n}"
  shows "length ps = Suc n"
proof -
  have "length ps = card (set ps)" using assms(1) by (simp add: distinct_card)
  also have "\<dots> = card {0..n}"
    unfolding assms(2) by (rule card_image) (simp add: inj_on_def)
  finally show ?thesis by simp
qed

lemma board_after_Suc:
  "k < length (mainline_moves L g) \<Longrightarrow>
     board_after L g (Suc k) = push L (board_after L g k) (mainline_moves L g ! k)"
  by (simp add: board_after_def take_Suc_conv_app_nth)

lemma replay_snoc: "replay f (xs @ [a, b]) = replay f (xs @ [a]) @ [f a b]"
  by (induction f xs rule: replay.induct) auto

lemma replay_map_upt:
  "replay f (map h [0..<Suc n]) = map (\<lambda>k. f (h k) (h (Suc k))) [0..<n]"
proof (induction n)
  case 0
  show ?case by simp
next
  case (Suc n)
  have "map h [0..<Suc (Suc n)] = map h [0..<n] @ [h n, h (Suc n)]" by simp
  then have "replay f (map h [0..<Suc (Suc n)]) = replay f (map h [0..<n] @ [h n]) @ [f (h n) (h (Suc n))]"
    by (simp only: replay_snoc)
  also have "map h [0..<n] @ [h n] = map h [0..<Suc n]" by simp
  finally show ?case using Suc.IH by simp
qed

lemma replay_frames:
  assumes "\<forall>k<length (mainline_moves L g).
             step (raster (board_after L g k))
                  (raster (push L (board_after L g k) (mainline_moves L g ! k)))
               = mainline_moves L g ! k"
  shows "replay step (map (\<lambda>k. raster (board_after L g k)) [0..<Suc (length (mainline_moves L g))])
           = mainline_moves L g"
proof -
  let ?ms = "mainline_moves L g"
  have "replay step (map (\<lambda>k. raster (board_after L g k)) [0..<Suc (length ?ms)])
          = map (\<lambda>k. step (raster (board_after L g k)) (raster (board_after L g (Suc k))))
              [0..<length ?ms]"
    by (rule replay_map_upt)
  also have "\<dots> = map (\<lambda>k. ?ms ! k) [0..<length ?ms]"
    using assms by (simp add: board_after_Suc)
  also have "\<dots> = ?ms" by (rule map_nth)
  finally show ?thesis .
qed

lemma run_clean:
  fixes L :: "('g, 'm, 'b, 'i) lib" and w :: "'i world"
  assumes rd: "read_pgn_file (arg_pgn_path c) w = (Inr pgn, w0)"
    and pg: "pgn_to_game L pgn = Some g"
    and cs: "clean_staging w"
    and perm: "\<forall>xs. mset (scandir L xs) = mset xs"
    and conv: "\<forall>b. svg2png L (svg_board L b) = Inr (raster b)"
    and slot: "free_slot w (arg_gif_path c)"
    and out: "\<not> is_under temp_path (arg_gif_path c)"
    and ow: "open_writer L (arg_gif_path c) (duration (parse_args c)) = None"
  shows "\<exists>w1 w2 w3.
      game_to_svgs L g svg_folder_path w = (Inr (), w1)
    \<and> set (glob L w1 svg_folder_path ''.svg'') =
          numbered svg_folder_path ''.svg'' ` {0..length (mainline_moves L g)}
    \<and> distinct (glob L w1 svg_folder_path ''.svg'')
    \<and> svgs_to_pngs L svg_folder_path (Some png_folder_path) w1 = (Inr (), w2)
    \<and> set (glob L w2 png_folder_path ''.png'') =
          numbered png_folder_path ''.png'' ` {0..length (mainline_moves L g)}
    \<and> distinct (glob L w2 png_folder_path ''.png'')
    \<and> png_files L png_folder_path w2 =
          (Inr (map (numbered png_folder_path ''.png'') [0..<Suc (length (mainline_moves L g))]), w2)
    \<and> write_gif L png_folder_path (arg_gif_path c) (duration (parse_args c)) w2 = (Inr (), w3)
    \<and> lookup w3 (arg_gif_path c) =
          Some (Gif (gif_frames L (map (\<lambda>k. raster (board_after L g k))
                                    [0..<Suc (length (mainline_moves L g))]))
                  (duration (parse_args c)))
    \<and> main L c w =
          bind (optimize_gif L (arg_gif_path c) (optimized (parse_args c)))
            (\<lambda>_. rmtree temp_path) w3
    \<and> (optimized (parse_args c) = ''none'' \<longrightarrow>
          (\<exists>w4. main L c w = (Inr (), w4) \<and> lookup w4 (arg_gif_path c) = lookup w3 (arg_gif_path c)))"
proof -
  let ?p = "arg_gif_path c"
  let ?d = "duration (parse_args c)"
  let ?o = "optimized (parse_args c)"
  from pipeline_clean [OF cs perm conv slot out ow, of g] obtain w1 w2 w3 where
    r1: "game_to_svgs L g svg_folder_path w = (Inr (), w1)"
    and g1: "set (glob L w1 svg_folder_path ''.svg'') =
          numbered svg_folder_path ''.svg'' ` {0..length (mainline_moves L g)}"
    and g1d: "distinct (glob L w1 svg_folder_path ''.svg'')"
    and r2: "svgs_to_pngs L svg_folder_path (Some png_folder_path) w1 = (Inr (), w2)"
    and g2: "set (glob L w2 png_folder_path ''.png'') =
          numbered png_folder_path ''.png'' ` {0..length (mainline_moves L g)}"
    and g2d: "distinct (glob L w2 png_folder_path ''.png'')"
    and pf: "png_files L png_folder_path w2 =
          (Inr (map (numbered png_folder_path ''.png'') [0..<Suc (length (mainline_moves L g))]), w2)"
    and wg: "write_gif L png_folder_path ?p ?d w2 = (Inr (), w3)"
    and gif: "lookup w3 ?p =
          Some (Gif (gif_frames L (map (\<lambda>k. raster (board_after L g k))
                                    [0..<Suc (length (mainline_moves L g))])) ?d)"
    and t3: "is_dir w3 temp_path" and nf3: "\<not> is_file w3 temp_path"
    by blast
  have w0: "w0 = w" using read_pgn_file_world [of "arg_pgn_path c" w] rd by simp
  have args: "pgn_path (parse_args c) = arg_pgn_path c" "gif_path (parse_args c) = ?p"
    by (simp_all add: parse_args_def)
  have m: "main L c w = bind (optimize_gif L ?p ?o) (\<lambda>_. rmtree temp_path) w3"
    using rd pg r1 r2 wg
    by (simp add: main_def Let_def args w0 bind_def pngs_to_gif_def)
  have none: "\<exists>w4. main L c w = (Inr (), w4) \<and> lookup w4 ?p = lookup w3 ?p" if "?o = ''none''"
  proof -
    from rmtree_ok [OF t3 nf3] obtain w4 where r: "rmtree temp_path w3 = (Inr (), w4)" by blast
    have "main L c w = (Inr (), w4)"
      using m r that by (simp add: bind_def optimize_gif_def return_def)
    moreover have "lookup w4 ?p = lookup w3 ?p" using rmtree_Inr [OF r out] .
    ultimately show ?thesis by blast
  qed
  show ?thesis
    using r1 g1 g1d r2 g2 g2d pf wg gif m none by blast
qed

section \<open>The claims\<close>

text \<open>
  C1, as the claim states it, fails, in two ways. A first run, started in a clean
  staging area on a four-move game, ends in the \<^verbatim>\<open>ValueError\<close> of line 81 and leaves
  \<^verbatim>\<open>temp\<close> behind; the next run, on a game of two moves, returns normally, and its
  animation has five frames, not three: lines 54 and 65 take every \<^verbatim>\<open>*.svg\<close> and
  \<^verbatim>\<open>*.png\<close> they find. And a run that starts in a clean staging area on a game of three
  moves, the second of which leaves the picture as it was (a null move), hands four
  images to an encoder that merges an image equal to its predecessor: the animation
  has three frames, not four.
\<close>

theorem frames_counted_counterexample:
  "clean_staging two_games_world
   \<and> fst (main demo_lib first_cmdline two_games_world) = Inl (UnknownValue ''bogus'')
   \<and> read_pgn_file (arg_pgn_path demo_cmdline)
         (snd (main demo_lib first_cmdline two_games_world))
       = (Inr ''ed'', snd (main demo_lib first_cmdline two_games_world))
   \<and> pgn_to_game demo_lib ''ed'' = Some ''ed''
   \<and> length (mainline_moves demo_lib ''ed'') = 2
   \<and> fst (main demo_lib demo_cmdline (snd (main demo_lib first_cmdline two_games_world)))
       = Inr ()
   \<and> lookup (snd (main demo_lib demo_cmdline (snd (main demo_lib first_cmdline two_games_world))))
         [''out'', ''game.gif'']
       = Some (Gif [''#<>'', ''#<e>'', ''#<ed>'', ''#<abc>'', ''#<abcd>''] (PyInt 1))
   \<and> length [''#<>'', ''#<e>'', ''#<ed>'', ''#<abc>'', ''#<abcd>''] = 5
   \<and> clean_staging null_move_world
   \<and> read_pgn_file (arg_pgn_path demo_cmdline) null_move_world = (Inr ''e-d'', null_move_world)
   \<and> pgn_to_game demo_lib ''e-d'' = Some ''e-d''
   \<and> length (mainline_moves demo_lib ''e-d'') = 3
   \<and> main demo_lib demo_cmdline null_move_world
       = (Inr (), \<lparr>files = [([''game.pgn''], Text ''e-d''),
                    ([''out'', ''game.gif''], Gif [''#<>'', ''#<e>'', ''#<ed>''] (PyInt 1))],
                   dirs = [[''out'']], stdout = []\<rparr>)
   \<and> length [''#<>'', ''#<e>'', ''#<ed>''] = 3"
  by code_simp

text \<open>
  C1, amended. A run on a parsed game with \<open>N\<close> mainline moves that starts in a clean
  staging area (no \<^verbatim>\<open>*.svg\<close> entry in \<^verbatim>\<open>temp/svg\<close>, no \<^verbatim>\<open>*.png\<close> entry in \<^verbatim>\<open>temp/png\<close>, no
  regular file in the place of a staging folder), with an output path outside \<^verbatim>\<open>temp\<close>
  that can be written, a rasteriser that accepts the renderer's pictures, an encoder that
  accepts the output name and the duration, and a directory enumeration that neither
  drops nor repeats entries, writes exactly the SVG files \<^verbatim>\<open>0.svg\<close> to \<^verbatim>\<open>N.svg\<close>, then
  exactly the PNG files \<^verbatim>\<open>0.png\<close> to \<^verbatim>\<open>N.png\<close>, and appends exactly \<open>N + 1\<close> images to the
  encoder, the rasters of the positions 0 to \<open>N\<close>. The animation holds what the encoder
  makes of these images: it has exactly \<open>N + 1\<close> frames when the encoder stores the
  images as it was handed them, which an encoder that merges equal neighbours does when
  no position is drawn like the one before it. What is left of \<open>main\<close> is the
  optimisation step and the removal of \<^verbatim>\<open>temp\<close>, and with \<^verbatim>\<open>none\<close> the run returns with
  that very animation at the output path.
\<close>

theorem frames_counted:
  fixes L :: "('g, 'm, 'b, 'i) lib" and w :: "'i world"
  assumes "read_pgn_file (arg_pgn_path c) w = (Inr pgn, w0)"
    and "pgn_to_game L pgn = Some g"
    and "clean_staging w"
    and "\<forall>xs. mset (scandir L xs) = mset xs"
    and "\<forall>b. svg2png L (svg_board L b) = Inr (raster b)"
    and "free_slot w (arg_gif_path c)"
    and "\<not> is_under temp_path (arg_gif_path c)"
    and "open_writer L (arg_gif_path c) (duration (parse_args c)) = None"
  shows "\<exists>w1 w2 w3.
      game_to_svgs L g svg_folder_path w = (Inr (), w1)
    \<and> set (glob L w1 svg_folder_path ''.svg'') =
          set (map (numbered svg_folder_path ''.svg'') [0..<Suc (length (mainline_moves L g))])
    \<and> length (glob L w1 svg_folder_path ''.svg'') = Suc (length (mainline_moves L g))
    \<and> svgs_to_pngs L svg_folder_path (Some png_folder_path) w1 = (Inr (), w2)
    \<and> set (glob L w2 png_folder_path ''.png'') =
          set (map (numbered png_folder_path ''.png'') [0..<Suc (length (mainline_moves L g))])
    \<and> length (glob L w2 png_folder_path ''.png'') = Suc (length (mainline_moves L g))
    \<and> write_gif L png_folder_path (arg_gif_path c) (duration (parse_args c)) w2 = (Inr (), w3)
    \<and> length (map (\<lambda>k. raster (board_after L g k)) [0..<Suc (length (mainline_moves L g))])
        = Suc (length (mainline_moves L g))
    \<and> lookup w3 (arg_gif_path c) =
          Some (Gif (gif_frames L (map (\<lambda>k. raster (board_after L g k))
                                    [0..<Suc (length (mainline_moves L g))]))
                  (duration (parse_args c)))
    \<and> (gif_frames L (map (\<lambda>k. raster (board_after L g k))
                       [0..<Suc (length (mainline_moves L g))])
         = map (\<lambda>k. raster (board_after L g k)) [0..<Suc (length (mainline_moves L g))] \<longrightarrow>
          (\<exists>fr. lookup w3 (arg_gif_path c) = Some (Gif fr (duration (parse_args c)))
             \<and> length fr = Suc (length (mainline_moves L g))))
    \<and> main L c w =
          bind (optimize_gif L (arg_gif_path c) (optimized (parse_args c)))
            (\<lambda>_. rmtree temp_path) w3
    \<and> (optimized (parse_args c) = ''none'' \<longrightarrow>
          (\<exists>w4. main L c w = (Inr (), w4)
             \<and> lookup w4 (arg_gif_path c) = lookup w3 (arg_gif_path c)))"
proof -
  let ?N = "length (mainline_moves L g)"
  let ?fr = "map (\<lambda>k. raster (board_after L g k)) [0..<Suc ?N]"
  from run_clean [OF assms] obtain w1 w2 w3 where
    r1: "game_to_svgs L g svg_folder_path w = (Inr (), w1)"
    and g1: "set (glob L w1 svg_folder_path ''.svg'') = numbered svg_folder_path ''.svg'' ` {0..?N}"
    and g1d: "distinct (glob L w1 svg_folder_path ''.svg'')"
    and r2: "svgs_to_pngs L svg_folder_path (Some png_folder_path) w1 = (Inr (), w2)"
    and g2: "set (glob L w2 png_folder_path ''.png'') = numbered png_folder_path ''.png'' ` {0..?N}"
    and g2d: "distinct (glob L w2 png_folder_path ''.png'')"
    and wg: "write_gif L png_folder_path (arg_gif_path c) (duration (parse_args c)) w2 = (Inr (), w3)"
    and gif: "lookup w3 (arg_gif_path c) = Some (Gif (gif_frames L ?fr) (duration (parse_args c)))"
    and m: "main L c w =
          bind (optimize_gif L (arg_gif_path c) (optimized (parse_args c)))
            (\<lambda>_. rmtree temp_path) w3"
    and none: "optimized (parse_args c) = ''none'' \<longrightarrow>
          (\<exists>w4. main L c w = (Inr (), w4) \<and> lookup w4 (arg_gif_path c) = lookup w3 (arg_gif_path c))"
    by blast
  have len: "length ?fr = Suc ?N" by simp
  have s1: "set (glob L w1 svg_folder_path ''.svg'') =
          set (map (numbered svg_folder_path ''.svg'') [0..<Suc ?N])"
    using g1 by (simp only: numbered_upt)
  have s2: "set (glob L w2 png_folder_path ''.png'') =
          set (map (numbered png_folder_path ''.png'') [0..<Suc ?N])"
    using g2 by (simp only: numbered_upt)
  have l1: "length (glob L w1 svg_folder_path ''.svg'') = Suc ?N"
    using g1d g1 by (rule length_numbered)
  have l2: "length (glob L w2 png_folder_path ''.png'') = Suc ?N"
    using g2d g2 by (rule length_numbered)
  have kept: "gif_frames L ?fr = ?fr \<longrightarrow>
          (\<exists>fr. lookup w3 (arg_gif_path c) = Some (Gif fr (duration (parse_args c)))
             \<and> length fr = Suc ?N)"
  proof
    assume "gif_frames L ?fr = ?fr"
    with gif have "lookup w3 (arg_gif_path c) = Some (Gif ?fr (duration (parse_args c)))"
      by (simp only:)
    with len show "\<exists>fr. lookup w3 (arg_gif_path c) = Some (Gif fr (duration (parse_args c)))
             \<and> length fr = Suc ?N" by blast
  qed
  show ?thesis
    using r1 s1 l1 r2 s2 l2 wg len gif kept m none by blast
qed

theorem frames_counted_witness:
  "read_pgn_file (arg_pgn_path demo_cmdline) demo_world = (Inr ''ed'', demo_world)
   \<and> pgn_to_game demo_lib ''ed'' = Some ''ed''
   \<and> clean_staging demo_world
   \<and> (\<forall>xs. mset (scandir demo_lib xs) = mset xs)
   \<and> (\<forall>b. svg2png demo_lib (svg_board demo_lib b)
            = Inr (''#<'' @ filter (\<lambda>m. m \<noteq> CHR ''-'') b @ ''>''))
   \<and> free_slot demo_world (arg_gif_path demo_cmdline)
   \<and> \<not> is_under temp_path (arg_gif_path demo_cmdline)
   \<and> open_writer demo_lib (arg_gif_path demo_cmdline) (duration (parse_args demo_cmdline)) = None
   \<and> optimized (parse_args demo_cmdline) = ''none''
   \<and> length (mainline_moves demo_lib ''ed'') = 2
   \<and> map (\<lambda>k. ''#<'' @ filter (\<lambda>m. m \<noteq> CHR ''-'') (board_after demo_lib ''ed'' k) @ ''>'')
         [0..<Suc (length (mainline_moves demo_lib ''ed''))] = [''#<>'', ''#<e>'', ''#<ed>'']
   \<and> gif_frames demo_lib [''#<>'', ''#<e>'', ''#<ed>''] = [''#<>'', ''#<e>'', ''#<ed>'']
   \<and> (\<exists>fr. lookup (snd (main demo_lib demo_cmdline demo_world)) (arg_gif_path demo_cmdline)
              = Some (Gif fr (duration (parse_args demo_cmdline)))
          \<and> length fr = 3)"
proof -
  let ?raster = "\<lambda>b. ''#<'' @ filter (\<lambda>m. m \<noteq> CHR ''-'') b @ ''>''"
  have rd: "read_pgn_file (arg_pgn_path demo_cmdline) demo_world = (Inr ''ed'', demo_world)"
    by code_simp
  have pg: "pgn_to_game demo_lib ''ed'' = Some ''ed''" by code_simp
  have cs: "clean_staging demo_world" by code_simp
  have perm: "\<forall>xs. mset (scandir demo_lib xs) = mset xs" by (simp add: demo_lib_def)
  have conv: "\<forall>b. svg2png demo_lib (svg_board demo_lib b) = Inr (?raster b)"
    by (simp add: demo_lib_def)
  have slot: "free_slot demo_world (arg_gif_path demo_cmdline)" by code_simp
  have out: "\<not> is_under temp_path (arg_gif_path demo_cmdline)" by code_simp
  have ow: "open_writer demo_lib (arg_gif_path demo_cmdline) (duration (parse_args demo_cmdline))
              = None" by (simp add: demo_lib_def)
  have opt: "optimized (parse_args demo_cmdline) = ''none''" by code_simp
  have n: "length (mainline_moves demo_lib ''ed'') = 2" by (simp add: demo_lib_def)
  have fr: "map (\<lambda>k. ?raster (board_after demo_lib ''ed'' k))
              [0..<Suc (length (mainline_moves demo_lib ''ed''))] = [''#<>'', ''#<e>'', ''#<ed>'']"
    by code_simp
  have keep: "gif_frames demo_lib [''#<>'', ''#<e>'', ''#<ed>''] = [''#<>'', ''#<e>'', ''#<ed>'']"
    by (simp add: demo_lib_def)
  from frames_counted [OF rd pg cs perm conv slot out ow]
  have "\<exists>fr. lookup (snd (main demo_lib demo_cmdline demo_world)) (arg_gif_path demo_cmdline)
              = Some (Gif fr (duration (parse_args demo_cmdline)))
          \<and> length fr = 3"
    unfolding fr using opt n keep by (elim exE conjE) auto
  with rd pg cs perm conv slot out ow opt n fr keep show ?thesis by blast
qed

text \<open>
  C2, as the claim states it, fails, in two ways. A first run is stopped when it
  creates the parent of its output path, a regular file being in the way, after it has
  staged the pictures of its four-move game; the next run, on the game \<^verbatim>\<open>ed\<close>, appends
  five frames: the three positions of its own game and two positions of the other one,
  and replaying the frames gives four moves, not the two of the input. And a run that
  starts in a clean staging area on the game \<^verbatim>\<open>e-d\<close>, whose second move leaves the
  picture as it was, draws four positions, of which an encoder that merges equal
  neighbours keeps three: a frame is dropped, and no reading of three frames gives the
  three moves of the input.
\<close>

theorem frames_in_move_order_counterexample:
  "(clean_staging two_games_world
   \<and> fst (main demo_lib blocked_cmdline two_games_world) = Inl FileExistsError
   \<and> mainline_moves demo_lib ''ed'' = ''ed''
   \<and> fst (main demo_lib demo_cmdline (snd (main demo_lib blocked_cmdline two_games_world)))
       = Inr ()
   \<and> lookup (snd (main demo_lib demo_cmdline (snd (main demo_lib blocked_cmdline two_games_world))))
         [''out'', ''game.gif'']
       = Some (Gif [''#<>'', ''#<e>'', ''#<ed>'', ''#<abc>'', ''#<abcd>''] (PyInt 1))
   \<and> map (\<lambda>k. ''#'' @ svg_board demo_lib (board_after demo_lib ''ed'' k)) [0..<3]
       = [''#<>'', ''#<e>'', ''#<ed>'']
   \<and> replay demo_step [''#<>'', ''#<e>'', ''#<ed>'', ''#<abc>'', ''#<abcd>''] = ''edcd''
   \<and> clean_staging null_move_world
   \<and> mainline_moves demo_lib ''e-d'' = ''e-d''
   \<and> map (\<lambda>k. ''#'' @ svg_board demo_lib (board_after demo_lib ''e-d'' k)) [0..<4]
       = [''#<>'', ''#<e>'', ''#<e>'', ''#<ed>'']
   \<and> main demo_lib demo_cmdline null_move_world
       = (Inr (), \<lparr>files = [([''game.pgn''], Text ''e-d''),
                    ([''out'', ''game.gif''], Gif [''#<>'', ''#<e>'', ''#<ed>''] (PyInt 1))],
                   dirs = [[''out'']], stdout = []\<rparr>)
   \<and> replay demo_step [''#<>'', ''#<e>'', ''#<ed>''] = ''ed'')
   \<and> (\<forall>mv. replay mv [''#<>'', ''#<e>'', ''#<ed>''] \<noteq> ''e-d'')"
proof
  show "clean_staging two_games_world
   \<and> fst (main demo_lib blocked_cmdline two_games_world) = Inl FileExistsError
   \<and> mainline_moves demo_lib ''ed'' = ''ed''
   \<and> fst (main demo_lib demo_cmdline (snd (main demo_lib blocked_cmdline two_games_world)))
       = Inr ()
   \<and> lookup (snd (main demo_lib demo_cmdline (snd (main demo_lib blocked_cmdline two_games_world))))
         [''out'', ''game.gif'']
       = Some (Gif [''#<>'', ''#<e>'', ''#<ed>'', ''#<abc>'', ''#<abcd>''] (PyInt 1))
   \<and> map (\<lambda>k. ''#'' @ svg_board demo_lib (board_after demo_lib ''ed'' k)) [0..<3]
       = [''#<>'', ''#<e>'', ''#<ed>'']
   \<and> replay demo_step [''#<>'', ''#<e>'', ''#<ed>'', ''#<abc>'', ''#<abcd>''] = ''edcd''
   \<and> clean_staging null_move_world
   \<and> mainline_moves demo_lib ''e-d'' = ''e-d''
   \<and> map (\<lambda>k. ''#'' @ svg_board demo_lib (board_after demo_lib ''e-d'' k)) [0..<4]
       = [''#<>'', ''#<e>'', ''#<e>'', ''#<ed>'']
   \<and> main demo_lib demo_cmdline null_move_world
       = (Inr (), \<lparr>files = [([''game.pgn''], Text ''e-d''),
                    ([''out'', ''game.gif''], Gif [''#<>'', ''#<e>'', ''#<ed>''] (PyInt 1))],
                   dirs = [[''out'']], stdout = []\<rparr>)
   \<and> replay demo_step [''#<>'', ''#<e>'', ''#<ed>''] = ''ed''"
    by code_simp
  show "\<forall>mv. replay mv [''#<>'', ''#<e>'', ''#<ed>''] \<noteq> ''e-d''"
    by simp
qed

text \<open>
  C2, amended. Under the conditions of C1 (a clean staging area at the start, a
  writable output path outside \<^verbatim>\<open>temp\<close>), line 65 yields \<^verbatim>\<open>0.png\<close>, \<^verbatim>\<open>1.png\<close>, up to
  \<^verbatim>\<open>N.png\<close> in this order, whatever the order of the directory, and the images appended
  to the encoder are, in this order and with nothing else, the rasters of the pictures
  of the boards after the first \<open>k\<close> mainline moves, for \<open>k\<close> from 0 to \<open>N\<close>. The
  animation holds what the encoder makes of them; when the encoder stores the images
  as it was handed them, frame \<open>k\<close> is the raster of position \<open>k\<close>. Whenever each move of
  the game can be read off the picture before it and the picture after it (\<open>step\<close>),
  replaying these pictures in order gives the mainline moves of the input.
\<close>

theorem frames_in_move_order:
  fixes L :: "('g, 'm, 'b, 'i) lib" and w :: "'i world"
  assumes "read_pgn_file (arg_pgn_path c) w = (Inr pgn, w0)"
    and "pgn_to_game L pgn = Some g"
    and "clean_staging w"
    and "\<forall>xs. mset (scandir L xs) = mset xs"
    and "\<forall>b. svg2png L (svg_board L b) = Inr (raster b)"
    and "free_slot w (arg_gif_path c)"
    and "\<not> is_under temp_path (arg_gif_path c)"
    and "open_writer L (arg_gif_path c) (duration (parse_args c)) = None"
  shows "\<exists>w1 w2 w3.
      game_to_svgs L g svg_folder_path w = (Inr (), w1)
    \<and> svgs_to_pngs L svg_folder_path (Some png_folder_path) w1 = (Inr (), w2)
    \<and> png_files L png_folder_path w2 =
          (Inr (map (numbered png_folder_path ''.png'') [0..<Suc (length (mainline_moves L g))]), w2)
    \<and> write_gif L png_folder_path (arg_gif_path c) (duration (parse_args c)) w2 = (Inr (), w3)
    \<and> lookup w3 (arg_gif_path c) =
          Some (Gif (gif_frames L (map (\<lambda>k. raster (board_after L g k))
                                    [0..<Suc (length (mainline_moves L g))]))
                  (duration (parse_args c)))
    \<and> (gif_frames L (map (\<lambda>k. raster (board_after L g k))
                       [0..<Suc (length (mainline_moves L g))])
         = map (\<lambda>k. raster (board_after L g k)) [0..<Suc (length (mainline_moves L g))] \<longrightarrow>
          lookup w3 (arg_gif_path c) =
            Some (Gif (map (\<lambda>k. raster (board_after L g k))
                         [0..<Suc (length (mainline_moves L g))])
                    (duration (parse_args c))))
    \<and> ((\<forall>k<length (mainline_moves L g).
            step (raster (board_after L g k))
                 (raster (push L (board_after L g k) (mainline_moves L g ! k)))
              = mainline_moves L g ! k) \<longrightarrow>
          replay step (map (\<lambda>k. raster (board_after L g k))
                         [0..<Suc (length (mainline_moves L g))])
            = mainline_moves L g)
    \<and> (optimized (parse_args c) = ''none'' \<longrightarrow>
          (\<exists>w4. main L c w = (Inr (), w4)
             \<and> lookup w4 (arg_gif_path c) = lookup w3 (arg_gif_path c)))"
proof -
  let ?N = "length (mainline_moves L g)"
  let ?fr = "map (\<lambda>k. raster (board_after L g k)) [0..<Suc ?N]"
  from run_clean [OF assms] obtain w1 w2 w3 where
    r1: "game_to_svgs L g svg_folder_path w = (Inr (), w1)"
    and r2: "svgs_to_pngs L svg_folder_path (Some png_folder_path) w1 = (Inr (), w2)"
    and pf: "png_files L png_folder_path w2 =
          (Inr (map (numbered png_folder_path ''.png'') [0..<Suc ?N]), w2)"
    and wg: "write_gif L png_folder_path (arg_gif_path c) (duration (parse_args c)) w2 = (Inr (), w3)"
    and gif: "lookup w3 (arg_gif_path c) = Some (Gif (gif_frames L ?fr) (duration (parse_args c)))"
    and none: "optimized (parse_args c) = ''none'' \<longrightarrow>
          (\<exists>w4. main L c w = (Inr (), w4) \<and> lookup w4 (arg_gif_path c) = lookup w3 (arg_gif_path c))"
    by blast
  have kept: "gif_frames L ?fr = ?fr \<longrightarrow>
          lookup w3 (arg_gif_path c) = Some (Gif ?fr (duration (parse_args c)))"
  proof
    assume "gif_frames L ?fr = ?fr"
    with gif show "lookup w3 (arg_gif_path c) = Some (Gif ?fr (duration (parse_args c)))"
      by (simp only:)
  qed
  have rt: "(\<forall>k<?N. step (raster (board_after L g k))
                 (raster (push L (board_after L g k) (mainline_moves L g ! k)))
              = mainline_moves L g ! k) \<longrightarrow>
          replay step ?fr = mainline_moves L g"
    using replay_frames [of L g step raster] by blast
  show ?thesis
    using r1 r2 pf wg gif kept rt none by blast
qed

theorem frames_in_move_order_witness:
  "read_pgn_file (arg_pgn_path demo_cmdline) demo_world = (Inr ''ed'', demo_world)
   \<and> pgn_to_game demo_lib ''ed'' = Some ''ed''
   \<and> clean_staging demo_world
   \<and> (\<forall>xs. mset (scandir demo_lib xs) = mset xs)
   \<and> (\<forall>b. svg2png demo_lib (svg_board demo_lib b)
            = Inr (''#<'' @ filter (\<lambda>m. m \<noteq> CHR ''-'') b @ ''>''))
   \<and> free_slot demo_world (arg_gif_path demo_cmdline)
   \<and> \<not> is_under temp_path (arg_gif_path demo_cmdline)
   \<and> open_writer demo_lib (arg_gif_path demo_cmdline) (duration (parse_args demo_cmdline)) = None
   \<and> mainline_moves demo_lib ''ed'' = ''ed''
   \<and> list_all (\<lambda>k.
         demo_step (''#<'' @ filter (\<lambda>m. m \<noteq> CHR ''-'') (board_after demo_lib ''ed'' k) @ ''>'')
           (''#<'' @ filter (\<lambda>m. m \<noteq> CHR ''-'')
                      (push demo_lib (board_after demo_lib ''ed'' k)
                         (mainline_moves demo_lib ''ed'' ! k)) @ ''>'')
         = mainline_moves demo_lib ''ed'' ! k) [0..<length (mainline_moves demo_lib ''ed'')]
   \<and> gif_frames demo_lib [''#<>'', ''#<e>'', ''#<ed>''] = [''#<>'', ''#<e>'', ''#<ed>'']
   \<and> optimized (parse_args demo_cmdline) = ''none''
   \<and> lookup (snd (main demo_lib demo_cmdline demo_world)) (arg_gif_path demo_cmdline)
       = Some (Gif [''#<>'', ''#<e>'', ''#<ed>''] (PyInt 1))
   \<and> replay demo_step [''#<>'', ''#<e>'', ''#<ed>''] = mainline_moves demo_lib ''ed''"
proof -
  let ?raster = "\<lambda>b. ''#<'' @ filter (\<lambda>m. m \<noteq> CHR ''-'') b @ ''>''"
  have rd: "read_pgn_file (arg_pgn_path demo_cmdline) demo_world = (Inr ''ed'', demo_world)"
    by code_simp
  have pg: "pgn_to_game demo_lib ''ed'' = Some ''ed''" by code_simp
  have cs: "clean_staging demo_world" by code_simp
  have perm: "\<forall>xs. mset (scandir demo_lib xs) = mset xs" by (simp add: demo_lib_def)
  have conv: "\<forall>b. svg2png demo_lib (svg_board demo_lib b) = Inr (?raster b)"
    by (simp add: demo_lib_def)
  have slot: "free_slot demo_world (arg_gif_path demo_cmdline)" by code_simp
  have out: "\<not> is_under temp_path (arg_gif_path demo_cmdline)" by code_simp
  have ow: "open_writer demo_lib (arg_gif_path demo_cmdline) (duration (parse_args demo_cmdline))
              = None" by (simp add: demo_lib_def)
  have ms: "mainline_moves demo_lib ''ed'' = ''ed''" by (simp add: demo_lib_def)
  have each: "list_all (\<lambda>k.
         demo_step (?raster (board_after demo_lib ''ed'' k))
           (?raster (push demo_lib (board_after demo_lib ''ed'' k)
                         (mainline_moves demo_lib ''ed'' ! k)))
         = mainline_moves demo_lib ''ed'' ! k) [0..<length (mainline_moves demo_lib ''ed'')]"
    by code_simp
  have step: "\<forall>k<length (mainline_moves demo_lib ''ed'').
         demo_step (?raster (board_after demo_lib ''ed'' k))
           (?raster (push demo_lib (board_after demo_lib ''ed'' k)
                         (mainline_moves demo_lib ''ed'' ! k)))
         = mainline_moves demo_lib ''ed'' ! k"
    using each by (simp only: list_all_iff set_upt Ball_def atLeastLessThan_iff) blast
  have keep: "gif_frames demo_lib [''#<>'', ''#<e>'', ''#<ed>''] = [''#<>'', ''#<e>'', ''#<ed>'']"
    by (simp add: demo_lib_def)
  have opt: "optimized (parse_args demo_cmdline) = ''none''" by code_simp
  have d: "duration (parse_args demo_cmdline) = PyInt 1" by code_simp
  have fr: "map (\<lambda>k. ?raster (board_after demo_lib ''ed'' k))
              [0..<Suc (length (mainline_moves demo_lib ''ed''))] = [''#<>'', ''#<e>'', ''#<ed>'']"
    by code_simp
  from frames_in_move_order [OF rd pg cs perm conv slot out ow, of demo_step]
  have "lookup (snd (main demo_lib demo_cmdline demo_world)) (arg_gif_path demo_cmdline)
       = Some (Gif [''#<>'', ''#<e>'', ''#<ed>''] (PyInt 1))
   \<and> replay demo_step [''#<>'', ''#<e>'', ''#<ed>''] = mainline_moves demo_lib ''ed''"
    unfolding fr d using opt step keep by (elim exE conjE) auto
  with rd pg cs perm conv slot out ow ms each keep opt show ?thesis by blast
qed

text \<open>
  C3. When the notation file can be read and no game can be parsed from it
  (\<open>pgn_to_game\<close> is \<open>None\<close>), \<open>main\<close> returns normally; the only thing it has done is
  print the line \<^verbatim>\<open>Cannot parse pgn file\<close>: no file and no directory was created, so
  there is no output animation.
\<close>

theorem no_game_prints_and_returns:
  assumes "read_pgn_file (arg_pgn_path c) w = (Inr pgn, w1)"
    and "pgn_to_game L pgn = None"
  shows "main L c w = (Inr (), w\<lparr>stdout := stdout w @ [''Cannot parse pgn file'']\<rparr>)"
proof -
  have "w1 = w"
    using read_pgn_file_world [of "arg_pgn_path c" w] assms(1) by simp
  with assms show ?thesis
    by (simp add: main_def Let_def parse_args_def bind_def print_def)
qed

theorem no_game_prints_and_returns_witness:
  "read_pgn_file (arg_pgn_path demo_cmdline) empty_world = (Inr [], empty_world)
   \<and> pgn_to_game demo_lib [] = None
   \<and> main demo_lib demo_cmdline empty_world =
       (Inr (), \<lparr>files = [([''game.pgn''], Text [])], dirs = [],
                 stdout = [''Cannot parse pgn file'']\<rparr>)"
proof -
  have r: "read_pgn_file (arg_pgn_path demo_cmdline) empty_world = (Inr [], empty_world)"
    by (simp add: read_pgn_file_Text lookup_def empty_world_def demo_cmdline_def)
  have g: "pgn_to_game demo_lib [] = None"
    by (simp add: pgn_to_game_def demo_lib_def)
  show ?thesis
    using no_game_prints_and_returns [OF r g] r g by (simp add: empty_world_def)
qed

text \<open>
  C4, as the claim states it, fails. A run reaches the optimisation stage with
  \<^verbatim>\<open>new\<close> and returns normally, and there is one output file, not two: here the place
  of the second file is taken by a directory, gifsicle cannot write, and pygifsicle
  drops gifsicle's exit status. With a gifsicle that produces nothing, \<^verbatim>\<open>new\<close> leaves one
  file and \<^verbatim>\<open>overwrite\<close> leaves the output file as the writer wrote it.
\<close>

theorem optimized_modes_counterexample:
  "fst (write_gif demo_lib png_folder_path [''out.gif''] (PyInt 1) dir_world) = Inr ()
   \<and> fst (pngs_to_gif demo_lib png_folder_path [''out.gif''] (PyInt 1) ''new'' dir_world) = Inr ()
   \<and> lookup (snd (pngs_to_gif demo_lib png_folder_path [''out.gif''] (PyInt 1) ''new'' dir_world))
         [''out.gif''] = Some (Gif [''a'', ''b'', ''c''] (PyInt 1))
   \<and> optimized_gif_path [''out.gif''] = [''out_optimized.gif'']
   \<and> lookup (snd (pngs_to_gif demo_lib png_folder_path [''out.gif''] (PyInt 1) ''new'' dir_world))
         [''out_optimized.gif''] = None
   \<and> write_gif quiet_lib png_folder_path [''out.gif''] (PyInt 1) staged_world = (Inr (), staged_done)
   \<and> pngs_to_gif quiet_lib png_folder_path [''out.gif''] (PyInt 1) ''new'' staged_world
       = (Inr (), staged_done)
   \<and> pngs_to_gif quiet_lib png_folder_path [''out.gif''] (PyInt 1) ''overwrite'' staged_world
       = (Inr (), staged_done)
   \<and> map fst (files staged_done) =
       [[''temp'', ''png'', ''10.png''], [''temp'', ''png'', ''9.png''],
        [''temp'', ''png'', ''0.png''], [''out.gif'']]"
  by code_simp

text \<open>
  C4, amended. Once the animation has been written (\<open>write_gif\<close>, lines 65 to 71, has
  returned): \<^verbatim>\<open>none\<close> returns with the world as the writer left it; \<^verbatim>\<open>overwrite\<close> runs
  gifsicle on the output file with itself as destination, \<^verbatim>\<open>new\<close> runs it with the
  destination stem, \<^verbatim>\<open>_optimized\<close>, suffix in the same directory, which is never the
  output file itself. When pygifsicle raises, that error is the result and nothing is
  written; when gifsicle produces nothing, or the destination of \<^verbatim>\<open>new\<close> is a directory,
  the run returns normally with nothing written; otherwise the optimised content is
  written at the destination (in place for \<^verbatim>\<open>overwrite\<close>, as a second file for \<^verbatim>\<open>new\<close>) and
  nothing else changes. Every other value raises the \<^verbatim>\<open>ValueError\<close> of line 81.
\<close>

theorem optimized_modes:
  assumes "write_gif L folder p d w = (Inr (), w1)"
  shows "\<exists>fr. lookup w1 p = Some (Gif fr d)
     \<and> pngs_to_gif L folder p d ''none'' w = (Inr (), w1)
     \<and> pngs_to_gif L folder p d ''overwrite'' w =
         (case gifsicle L p p (Gif fr d) of
            Inl e \<Rightarrow> (Inl e, w1)
          | Inr None \<Rightarrow> (Inr (), w1)
          | Inr (Some c) \<Rightarrow> (Inr (), w1\<lparr>files := AList.update p c (files w1)\<rparr>))
     \<and> pngs_to_gif L folder p d ''new'' w =
         (case gifsicle L p (optimized_gif_path p) (Gif fr d) of
            Inl e \<Rightarrow> (Inl e, w1)
          | Inr None \<Rightarrow> (Inr (), w1)
          | Inr (Some c) \<Rightarrow>
              (if is_dir w1 (optimized_gif_path p) then (Inr (), w1)
               else (Inr (), w1\<lparr>files := AList.update (optimized_gif_path p) c (files w1)\<rparr>)))
     \<and> optimized_gif_path p = path_parent p @ [path_stem p @ ''_optimized'' @ path_suffix p]
     \<and> optimized_gif_path p \<noteq> p
     \<and> (opt \<notin> {''new'', ''overwrite'', ''none''} \<longrightarrow>
          pngs_to_gif L folder p d opt w = (Inl (UnknownValue opt), w1))"
proof -
  from write_gif_Inr [OF assms] obtain fr where
    fr: "lookup w1 p = Some (Gif fr d)" and nd: "\<not> is_dir w1 p"
    and nf: "\<not> file_on_way w1 p" and pd: "is_dir w1 (path_parent p)"
    by auto
  have ne: "p \<noteq> []" using nd by (auto simp: is_dir_def)
  have none: "pngs_to_gif L folder p d ''none'' w = (Inr (), w1)"
    using assms by (simp add: pngs_to_gif_def bind_def optimize_gif_def return_def)
  have over: "pngs_to_gif L folder p d ''overwrite'' w =
         (case gifsicle L p p (Gif fr d) of
            Inl e \<Rightarrow> (Inl e, w1)
          | Inr None \<Rightarrow> (Inr (), w1)
          | Inr (Some c) \<Rightarrow> (Inr (), w1\<lparr>files := AList.update p c (files w1)\<rparr>))"
    using assms fr nd nf pd
    by (simp add: pngs_to_gif_def bind_def optimize_gif_def pygifsicle_optimize_def
        write_file_def split: sum.splits option.splits)
  have pp: "path_parent (optimized_gif_path p) = path_parent p"
    by (simp add: optimized_gif_path_def path_parent_def)
  have nf': "\<not> file_on_way w1 (optimized_gif_path p)"
    unfolding optimized_gif_path_def file_on_way_sibling [OF ne] by (rule nf)
  have new: "pngs_to_gif L folder p d ''new'' w =
         (case gifsicle L p (optimized_gif_path p) (Gif fr d) of
            Inl e \<Rightarrow> (Inl e, w1)
          | Inr None \<Rightarrow> (Inr (), w1)
          | Inr (Some c) \<Rightarrow>
              (if is_dir w1 (optimized_gif_path p) then (Inr (), w1)
               else (Inr (), w1\<lparr>files := AList.update (optimized_gif_path p) c (files w1)\<rparr>)))"
    using assms fr nf' pd pp
    by (simp add: pngs_to_gif_def bind_def optimize_gif_def pygifsicle_optimize_def
        write_file_def split: sum.splits option.splits)
  have bad: "opt \<notin> {''new'', ''overwrite'', ''none''} \<longrightarrow>
          pngs_to_gif L folder p d opt w = (Inl (UnknownValue opt), w1)"
    using assms by (simp add: pngs_to_gif_def bind_def optimize_gif_def raise_def)
  show ?thesis
    using fr none over new bad optimized_gif_path_neq [of p]
    by (intro exI [of _ fr] conjI) (simp_all add: optimized_gif_path_def)
qed

theorem optimized_modes_witness:
  "write_gif demo_lib png_folder_path [''out.gif''] (PyInt 1) staged_world = (Inr (), staged_done)
   \<and> ''bogus'' \<notin> {''new'', ''overwrite'', ''none''}
   \<and> \<not> is_dir staged_done (optimized_gif_path [''out.gif''])
   \<and> optimized_gif_path [''out.gif''] = [''out_optimized.gif'']
   \<and> pngs_to_gif demo_lib png_folder_path [''out.gif''] (PyInt 1) ''none'' staged_world
       = (Inr (), staged_done)
   \<and> pngs_to_gif demo_lib png_folder_path [''out.gif''] (PyInt 1) ''overwrite'' staged_world
       = (Inr (), staged_done\<lparr>files := AList.update [''out.gif'']
                   (Gif [''~a'', ''~b'', ''~c''] (PyInt 1)) (files staged_done)\<rparr>)
   \<and> pngs_to_gif demo_lib png_folder_path [''out.gif''] (PyInt 1) ''new'' staged_world
       = (Inr (), staged_done\<lparr>files := AList.update [''out_optimized.gif'']
                   (Gif [''~a'', ''~b'', ''~c''] (PyInt 1)) (files staged_done)\<rparr>)
   \<and> pngs_to_gif demo_lib png_folder_path [''out.gif''] (PyInt 1) ''bogus'' staged_world
       = (Inl (UnknownValue ''bogus''), staged_done)"
proof -
  have nd: "\<not> is_dir staged_done (optimized_gif_path [''out.gif''])" by code_simp
  have op: "optimized_gif_path [''out.gif''] = [''out_optimized.gif'']" by code_simp
  have lk: "lookup staged_done [''out.gif''] = Some (Gif [''a'', ''b'', ''c''] (PyInt 1))"
    by code_simp
  have g: "gifsicle demo_lib src dst (Gif [''a'', ''b'', ''c''] (PyInt 1))
             = Inr (Some (Gif [''~a'', ''~b'', ''~c''] (PyInt 1)))" for src dst
    by (simp add: demo_lib_def)
  from optimized_modes [OF staged_write_gif, of "''bogus''"] obtain fr where
    fr: "lookup staged_done [''out.gif''] = Some (Gif fr (PyInt 1))"
    and rest: "pngs_to_gif demo_lib png_folder_path [''out.gif''] (PyInt 1) ''none'' staged_world
         = (Inr (), staged_done)"
      "pngs_to_gif demo_lib png_folder_path [''out.gif''] (PyInt 1) ''overwrite'' staged_world =
         (case gifsicle demo_lib [''out.gif''] [''out.gif''] (Gif fr (PyInt 1)) of
            Inl e \<Rightarrow> (Inl e, staged_done)
          | Inr None \<Rightarrow> (Inr (), staged_done)
          | Inr (Some c) \<Rightarrow> (Inr (), staged_done\<lparr>files := AList.update [''out.gif''] c (files staged_done)\<rparr>))"
      "pngs_to_gif demo_lib png_folder_path [''out.gif''] (PyInt 1) ''new'' staged_world =
         (case gifsicle demo_lib [''out.gif''] (optimized_gif_path [''out.gif'']) (Gif fr (PyInt 1)) of
            Inl e \<Rightarrow> (Inl e, staged_done)
          | Inr None \<Rightarrow> (Inr (), staged_done)
          | Inr (Some c) \<Rightarrow>
              (if is_dir staged_done (optimized_gif_path [''out.gif'']) then (Inr (), staged_done)
               else (Inr (), staged_done\<lparr>files := AList.update (optimized_gif_path [''out.gif'']) c (files staged_done)\<rparr>)))"
      "''bogus'' \<notin> {''new'', ''overwrite'', ''none''} \<longrightarrow>
          pngs_to_gif demo_lib png_folder_path [''out.gif''] (PyInt 1) ''bogus'' staged_world
            = (Inl (UnknownValue ''bogus''), staged_done)"
    by blast
  from fr lk have f: "fr = [''a'', ''b'', ''c'']" by simp
  show ?thesis
    using staged_write_gif nd rest unfolding f g op by simp
qed

text \<open>
  C5, as the claim states it, fails: with the option value \<^verbatim>\<open>bogus\<close> the run raises the
  \<^verbatim>\<open>ValueError\<close> of line 81 and the output file is on disk with all three frames, the
  same content the run with \<^verbatim>\<open>none\<close> leaves.
\<close>

theorem invalid_optimized_counterexample:
  "fst (main demo_lib bogus_cmdline demo_world) = Inl (UnknownValue ''bogus'')
   \<and> lookup (snd (main demo_lib bogus_cmdline demo_world)) [''out'', ''game.gif'']
       = Some (Gif [''#<>'', ''#<e>'', ''#<ed>''] (PyInt 1))
   \<and> main demo_lib demo_cmdline demo_world =
       (Inr (), \<lparr>files = [([''game.pgn''], Text ''ed''),
                  ([''out'', ''game.gif''], Gif [''#<>'', ''#<e>'', ''#<ed>''] (PyInt 1))],
                 dirs = [[''out'']], stdout = []\<rparr>)"
  by code_simp

text \<open>
  C5, amended. With a value of \<open>optimized\<close> other than \<^verbatim>\<open>new\<close>, \<^verbatim>\<open>overwrite\<close> and
  \<^verbatim>\<open>none\<close>, \<open>pngs_to_gif\<close> does all that it does for \<^verbatim>\<open>none\<close> and raises the
  \<^verbatim>\<open>ValueError\<close> afterwards: when the run with \<^verbatim>\<open>none\<close> returns, the run with the
  invalid value raises in the very world the former returns, the animation written and
  closed; when the run with \<^verbatim>\<open>none\<close> raises, so does the other, with the same error.
\<close>

theorem invalid_optimized_raises_after_writing:
  assumes "opt \<notin> {''new'', ''overwrite'', ''none''}"
  shows "pngs_to_gif L folder p d opt w =
     (case pngs_to_gif L folder p d ''none'' w of
        (Inl e, w') \<Rightarrow> (Inl e, w')
      | (Inr u, w') \<Rightarrow> (Inl (UnknownValue opt), w'))"
  using assms
  by (simp add: pngs_to_gif_def bind_def optimize_gif_def raise_def return_def
      split: prod.splits sum.splits)

theorem invalid_optimized_raises_after_writing_witness:
  "''bogus'' \<notin> {''new'', ''overwrite'', ''none''}
   \<and> pngs_to_gif demo_lib png_folder_path [''out.gif''] (PyInt 1) ''none'' staged_world
       = (Inr (), staged_done)
   \<and> pngs_to_gif demo_lib png_folder_path [''out.gif''] (PyInt 1) ''bogus'' staged_world
       = (Inl (UnknownValue ''bogus''), staged_done)"
proof -
  have h: "''bogus'' \<notin> {''new'', ''overwrite'', ''none''}" by simp
  have n: "pngs_to_gif demo_lib png_folder_path [''out.gif''] (PyInt 1) ''none'' staged_world
       = (Inr (), staged_done)" by code_simp
  show ?thesis
    using invalid_optimized_raises_after_writing [OF h, of demo_lib png_folder_path
        "[''out.gif'']" "PyInt 1" staged_world] n h
    by simp
qed

text \<open>
  C6. A run that fails leaves the staging directory behind: with the option value
  \<^verbatim>\<open>bogus\<close> the run ends in the \<^verbatim>\<open>ValueError\<close> of line 81, and \<^verbatim>\<open>temp\<close>, its SVG files
  and its PNG files are still there. Only the last line of \<open>main\<close> removes them.
\<close>

theorem temp_left_behind_after_error:
  "fst (main demo_lib bogus_cmdline demo_world) = Inl (UnknownValue ''bogus'')
   \<and> is_dir (snd (main demo_lib bogus_cmdline demo_world)) temp_path
   \<and> lookup (snd (main demo_lib bogus_cmdline demo_world)) (svg_folder_path @ [''0.svg''])
       = Some (Text ''<>'')
   \<and> lookup (snd (main demo_lib bogus_cmdline demo_world)) (png_folder_path @ [''2.png''])
       = Some (Png ''#<ed>'')"
  by code_simp

text \<open>
  C7. Without \<^verbatim>\<open>-d\<close> the duration is the integer 1 of line 92; with \<^verbatim>\<open>-d\<close> it is the string
  given on the command line, as it stands. When a run has staged its pictures and
  created the parent of the output path, so that it reaches line 68, what is left of
  \<open>main\<close> opens the writer with exactly this value as \<open>duration\<close>, appends the
  frames, optimises and removes \<^verbatim>\<open>temp\<close>. If the encoder refuses the value, \<open>main\<close> raises
  the encoder's error at this point; and whenever the run returns normally, with
  \<open>optimized\<close> other than \<^verbatim>\<open>overwrite\<close> and an output path outside \<^verbatim>\<open>temp\<close>, the output
  file is an animation that carries this value as its per-frame duration.
\<close>

theorem duration_default_and_passthrough:
  assumes "read_pgn_file (arg_pgn_path c) w = (Inr pgn, w0)"
    and "pgn_to_game L pgn = Some g"
    and "game_to_svgs L g svg_folder_path w = (Inr (), w1)"
    and "svgs_to_pngs L svg_folder_path (Some png_folder_path) w1 = (Inr (), w2)"
    and "png_files L png_folder_path w2 = (Inr ps, w2')"
    and "mkdir_parents (path_parent (arg_gif_path c)) w2 = (Inr (), w3)"
  shows "duration (parse_args c) = (case opt_duration c of None \<Rightarrow> PyInt 1 | Some s \<Rightarrow> PyStr s)
     \<and> main L c w =
         bind (get_writer L (arg_gif_path c)
                 (case opt_duration c of None \<Rightarrow> PyInt 1 | Some s \<Rightarrow> PyStr s))
           (\<lambda>_. bind (frames_loop L (arg_gif_path c)
                         (case opt_duration c of None \<Rightarrow> PyInt 1 | Some s \<Rightarrow> PyStr s) [] ps)
             (\<lambda>_. bind (optimize_gif L (arg_gif_path c) (optimized (parse_args c)))
               (\<lambda>_. rmtree temp_path))) w3
     \<and> (\<forall>e. open_writer L (arg_gif_path c)
                (case opt_duration c of None \<Rightarrow> PyInt 1 | Some s \<Rightarrow> PyStr s) = Some e \<longrightarrow>
              main L c w = (Inl e, w3))
     \<and> (\<forall>w'. main L c w = (Inr (), w') \<and> optimized (parse_args c) \<noteq> ''overwrite''
              \<and> \<not> is_under temp_path (arg_gif_path c) \<longrightarrow>
            (\<exists>fr. lookup w' (arg_gif_path c) =
               Some (Gif fr (case opt_duration c of None \<Rightarrow> PyInt 1 | Some s \<Rightarrow> PyStr s))))"
proof -
  let ?p = "arg_gif_path c"
  let ?D = "case opt_duration c of None \<Rightarrow> PyInt 1 | Some s \<Rightarrow> PyStr s"
  let ?o = "optimized (parse_args c)"
  have w0: "w0 = w" using read_pgn_file_world [of "arg_pgn_path c" w] assms(1) by simp
  have w2': "w2' = w2" using assms(5) by (rule png_files_same)
  have args: "pgn_path (parse_args c) = arg_pgn_path c" "gif_path (parse_args c) = ?p"
    "duration (parse_args c) = ?D"
    by (simp_all add: parse_args_def)
  have m: "main L c w =
         bind (get_writer L ?p ?D)
           (\<lambda>_. bind (frames_loop L ?p ?D [] ps)
             (\<lambda>_. bind (optimize_gif L ?p ?o) (\<lambda>_. rmtree temp_path))) w3"
    using assms w0 w2'
    by (simp add: main_def Let_def args bind_def pngs_to_gif_def write_gif_def
        split: prod.splits sum.splits)
  have refuse: "main L c w = (Inl e, w3)" if "open_writer L ?p ?D = Some e" for e
    using that by (simp add: m bind_def get_writer_def raise_def)
  have kept: "\<exists>fr. lookup w' ?p = Some (Gif fr ?D)"
    if ok: "main L c w = (Inr (), w')" and o: "?o \<noteq> ''overwrite''"
      and out: "\<not> is_under temp_path ?p" for w'
  proof -
    from ok have "bind (pngs_to_gif L png_folder_path ?p ?D ?o) (\<lambda>_. rmtree temp_path) w2
                    = (Inr (), w')"
      using assms w0 by (simp add: main_def Let_def args bind_def)
    then obtain w4 where g: "pngs_to_gif L png_folder_path ?p ?D ?o w2 = (Inr (), w4)"
      and r: "rmtree temp_path w4 = (Inr (), w')"
      by (auto elim!: bind_InrE)
    from g obtain wa where wg: "write_gif L png_folder_path ?p ?D w2 = (Inr (), wa)"
      and og: "optimize_gif L ?p ?o wa = (Inr (), w4)"
      unfolding pngs_to_gif_def by (auto elim!: bind_InrE)
    from write_gif_Inr [OF wg] obtain fr where "lookup wa ?p = Some (Gif fr ?D)" by auto
    moreover have "lookup w4 ?p = lookup wa ?p"
      using optimize_gif_keeps [OF o, of L ?p wa] og by simp
    moreover have "lookup w' ?p = lookup w4 ?p" using rmtree_Inr [OF r out] .
    ultimately show ?thesis by simp
  qed
  show ?thesis using args(3) m refuse kept by blast
qed


theorem duration_default_and_passthrough_witness:
  "read_pgn_file (arg_pgn_path demo_cmdline) demo_world = (Inr ''ed'', demo_world)
   \<and> pgn_to_game demo_lib ''ed'' = Some ''ed''
   \<and> pgn_to_game strict_lib ''ed'' = Some ''ed''
   \<and> fst (game_to_svgs demo_lib ''ed'' svg_folder_path demo_world) = Inr ()
   \<and> fst (svgs_to_pngs demo_lib svg_folder_path (Some png_folder_path)
            (snd (game_to_svgs demo_lib ''ed'' svg_folder_path demo_world))) = Inr ()
   \<and> fst (png_files demo_lib png_folder_path
            (snd (svgs_to_pngs demo_lib svg_folder_path (Some png_folder_path)
               (snd (game_to_svgs demo_lib ''ed'' svg_folder_path demo_world)))))
       = Inr (map (numbered png_folder_path ''.png'') [0, 1, 2])
   \<and> fst (mkdir_parents [''out'']
            (snd (svgs_to_pngs demo_lib svg_folder_path (Some png_folder_path)
               (snd (game_to_svgs demo_lib ''ed'' svg_folder_path demo_world))))) = Inr ()
   \<and> opt_duration demo_cmdline = None
   \<and> duration (parse_args demo_cmdline) = PyInt 1
   \<and> open_writer demo_lib [''out'', ''game.gif''] (PyInt 1) = None
   \<and> (\<exists>fr. lookup (snd (main demo_lib demo_cmdline demo_world)) [''out'', ''game.gif'']
             = Some (Gif fr (PyInt 1)))
   \<and> opt_duration two_sec_cmdline = Some ''2''
   \<and> duration (parse_args two_sec_cmdline) = PyStr ''2''
   \<and> open_writer demo_lib [''out'', ''game.gif''] (PyStr ''2'') = None
   \<and> (\<exists>fr. lookup (snd (main demo_lib two_sec_cmdline demo_world)) [''out'', ''game.gif'']
             = Some (Gif fr (PyStr ''2'')))
   \<and> open_writer strict_lib [''out'', ''game.gif''] (PyStr ''2'')
       = Some (LibraryError ''imageio'')
   \<and> fst (main strict_lib two_sec_cmdline demo_world) = Inl (LibraryError ''imageio'')
   \<and> lookup (snd (main strict_lib two_sec_cmdline demo_world)) [''out'', ''game.gif''] = None"
proof -
  let ?w1 = "snd (game_to_svgs demo_lib ''ed'' svg_folder_path demo_world)"
  let ?w2 = "snd (svgs_to_pngs demo_lib svg_folder_path (Some png_folder_path) ?w1)"
  let ?w3 = "snd (mkdir_parents [''out''] ?w2)"
  let ?ps = "map (numbered png_folder_path ''.png'') [0, 1, 2]"
  have r: "read_pgn_file (arg_pgn_path demo_cmdline) demo_world = (Inr ''ed'', demo_world)"
    by (simp add: read_pgn_file_Text lookup_def demo_world_def demo_cmdline_def)
  have r2: "read_pgn_file (arg_pgn_path two_sec_cmdline) demo_world = (Inr ''ed'', demo_world)"
    using r by (simp add: two_sec_cmdline_def)
  have g: "pgn_to_game demo_lib ''ed'' = Some ''ed''"
    by (simp add: pgn_to_game_def demo_lib_def)
  have gs: "pgn_to_game strict_lib ''ed'' = Some ''ed''"
    by (simp add: pgn_to_game_def strict_lib_def demo_lib_def)
  have s: "fst (game_to_svgs demo_lib ''ed'' svg_folder_path demo_world) = Inr ()"
    by code_simp
  have p: "fst (svgs_to_pngs demo_lib svg_folder_path (Some png_folder_path) ?w1) = Inr ()"
    by code_simp
  have f: "fst (png_files demo_lib png_folder_path ?w2) = Inr ?ps"
    by code_simp
  have k: "fst (mkdir_parents [''out''] ?w2) = Inr ()"
    by code_simp
  have ss: "game_to_svgs strict_lib ''ed'' svg_folder_path demo_world
              = game_to_svgs demo_lib ''ed'' svg_folder_path demo_world"
    by code_simp
  have sp: "svgs_to_pngs strict_lib svg_folder_path (Some png_folder_path) ?w1
              = svgs_to_pngs demo_lib svg_folder_path (Some png_folder_path) ?w1"
    by code_simp
  have sf: "png_files strict_lib png_folder_path ?w2 = png_files demo_lib png_folder_path ?w2"
    by code_simp
  have s': "game_to_svgs demo_lib ''ed'' svg_folder_path demo_world = (Inr (), ?w1)"
    using s by (metis prod.collapse)
  have p': "svgs_to_pngs demo_lib svg_folder_path (Some png_folder_path) ?w1 = (Inr (), ?w2)"
    using p by (metis prod.collapse)
  have f': "png_files demo_lib png_folder_path ?w2 = (Inr ?ps, ?w2)"
    using f png_files_world [of demo_lib png_folder_path ?w2] by (metis prod.collapse)
  have path: "arg_gif_path demo_cmdline = [''out'', ''game.gif'']"
    "arg_gif_path two_sec_cmdline = [''out'', ''game.gif'']"
    by (simp_all add: demo_cmdline_def two_sec_cmdline_def)
  have par: "path_parent [''out'', ''game.gif''] = [''out'']" by (simp add: path_parent_def)
  have k': "mkdir_parents (path_parent (arg_gif_path demo_cmdline)) ?w2 = (Inr (), ?w3)"
    "mkdir_parents (path_parent (arg_gif_path two_sec_cmdline)) ?w2 = (Inr (), ?w3)"
    unfolding path par using k by (metis prod.collapse)+
  have d: "opt_duration demo_cmdline = None" "opt_duration two_sec_cmdline = Some ''2''"
    by (simp_all add: demo_cmdline_def two_sec_cmdline_def)
  have o: "optimized (parse_args demo_cmdline) \<noteq> ''overwrite''"
    "optimized (parse_args two_sec_cmdline) \<noteq> ''overwrite''"
    by (simp_all add: parse_args_def demo_cmdline_def two_sec_cmdline_def)
  have u: "\<not> is_under temp_path [''out'', ''game.gif'']"
    by (simp add: is_under_def temp_path_def)
  have ow: "open_writer demo_lib [''out'', ''game.gif''] (PyInt 1) = None"
    "open_writer demo_lib [''out'', ''game.gif''] (PyStr ''2'') = None"
    "open_writer strict_lib [''out'', ''game.gif''] (PyStr ''2'')
       = Some (LibraryError ''imageio'')"
    by (simp_all add: demo_lib_def strict_lib_def)
  have m1: "fst (main demo_lib demo_cmdline demo_world) = Inr ()" by code_simp
  have m2: "fst (main demo_lib two_sec_cmdline demo_world) = Inr ()" by code_simp
  have m1': "main demo_lib demo_cmdline demo_world
               = (Inr (), snd (main demo_lib demo_cmdline demo_world))"
    using m1 by (metis prod.collapse)
  have m2': "main demo_lib two_sec_cmdline demo_world
               = (Inr (), snd (main demo_lib two_sec_cmdline demo_world))"
    using m2 by (metis prod.collapse)
  have nogif: "lookup ?w3 [''out'', ''game.gif''] = None" by code_simp
  have ss': "game_to_svgs strict_lib ''ed'' svg_folder_path demo_world = (Inr (), ?w1)"
    using s' ss by simp
  have sp': "svgs_to_pngs strict_lib svg_folder_path (Some png_folder_path) ?w1 = (Inr (), ?w2)"
    using p' sp by simp
  have sf': "png_files strict_lib png_folder_path ?w2 = (Inr ?ps, ?w2)"
    using f' sf by simp
  note one = duration_default_and_passthrough [where L = demo_lib and c = demo_cmdline,
      OF r g s' p' f' k'(1)]
  note two = duration_default_and_passthrough [where L = demo_lib and c = two_sec_cmdline,
      OF r2 g s' p' f' k'(2)]
  note three = duration_default_and_passthrough [where L = strict_lib and c = two_sec_cmdline,
      OF r2 gs ss' sp' sf' k'(2)]
  have a1: "duration (parse_args demo_cmdline) = PyInt 1" using one d by simp
  have a2: "\<exists>fr. lookup (snd (main demo_lib demo_cmdline demo_world)) [''out'', ''game.gif'']
             = Some (Gif fr (PyInt 1))"
    using one m1' o(1) u d(1) path(1) by (metis option.simps(4))
  have b1: "duration (parse_args two_sec_cmdline) = PyStr ''2''" using two d by simp
  have b2: "\<exists>fr. lookup (snd (main demo_lib two_sec_cmdline demo_world)) [''out'', ''game.gif'']
             = Some (Gif fr (PyStr ''2''))"
    using two m2' o(2) u d(2) path(2) by (metis option.simps(5))
  have c1: "main strict_lib two_sec_cmdline demo_world = (Inl (LibraryError ''imageio''), ?w3)"
  proof -
    have "open_writer strict_lib (arg_gif_path two_sec_cmdline)
            (case opt_duration two_sec_cmdline of None \<Rightarrow> PyInt 1 | Some s \<Rightarrow> PyStr s)
          = Some (LibraryError ''imageio'')"
      using ow(3) by (simp add: d path)
    with three show ?thesis by blast
  qed
  show ?thesis
    using r g gs s p f k d a1 a2 b1 b2 ow c1 nogif by simp
qed





text \<open>
  C10. Each of the three writers creates the parent directories first. Whenever the
  target is not a directory and none of its ancestors is a regular file (so that
  directories that do not exist yet are all that is in the way), \<open>save_svg\<close> writes
  the SVG, \<open>svg_to_png\<close> writes the PNG of a readable SVG that cairosvg converts, and
  \<open>write_gif\<close> (lines 65 to 71) creates the directory and, when imageio accepts the
  name and the duration, opens its writer: what is left to fail there is the sort key of
  line 65 and the reading of the frames. Afterwards the
  parent is a directory. Directories that exist already are tolerated.
\<close>

theorem parents_created_before_writing:
  assumes "\<not> is_dir w p" and "\<not> file_on_way w p"
  shows "(\<exists>w'. save_svg s p w = (Inr (), w') \<and> is_dir w' (path_parent p)
            \<and> lookup w' p = Some (Text s))
     \<and> (lookup w src = Some (Text s) \<and> svg2png L s = Inr i \<longrightarrow>
          (\<exists>w'. svg_to_png L src (Some p) w = (Inr (), w') \<and> is_dir w' (path_parent p)
             \<and> lookup w' p = Some (Png i)))
     \<and> (open_writer L p d = None \<longrightarrow>
          (\<exists>w0. is_dir w0 (path_parent p) \<and> lookup w0 p = Some (Gif [] d)
             \<and> write_gif L folder p d w =
                 (case png_files L folder w of
                    (Inl e, w') \<Rightarrow> (Inl e, w')
                  | (Inr ps, w') \<Rightarrow> frames_loop L p d [] ps w0)))"
proof (intro conjI impI)
  from mkdir_then_write [OF assms, of "Text s"]
  show "\<exists>w'. save_svg s p w = (Inr (), w') \<and> is_dir w' (path_parent p)
            \<and> lookup w' p = Some (Text s)"
    by (auto simp: save_svg_def)
next
  assume a: "lookup w src = Some (Text s) \<and> svg2png L s = Inr i"
  from mkdir_then [OF assms] obtain w1 where
    m: "mkdir_parents (path_parent p) w = (Inr (), w1)" and f: "files w1 = files w"
    and d: "is_dir w1 (path_parent p)" and nd: "\<not> is_dir w1 p" and nw: "\<not> file_on_way w1 p"
    by blast
  have "lookup w1 src = Some (Text s)" using a f by (simp add: lookup_def)
  then have "cairosvg_svg2png L src p w1 = (Inr (), w1\<lparr>files := AList.update p (Png i) (files w1)\<rparr>)"
    using a write_file_ok [OF nd nw d]
    by (simp add: cairosvg_svg2png_def bind_def read_file_Some)
  then have "svg_to_png L src (Some p) w = (Inr (), w1\<lparr>files := AList.update p (Png i) (files w1)\<rparr>)"
    using m by (simp add: svg_to_png_def bind_def)
  then show "\<exists>w'. svg_to_png L src (Some p) w = (Inr (), w') \<and> is_dir w' (path_parent p)
             \<and> lookup w' p = Some (Png i)"
    using d by auto
next
  assume ow: "open_writer L p d = None"
  from mkdir_then_write [OF assms, of "Gif [] d"] obtain w1 where
    d1: "is_dir w1 (path_parent p)"
    and b: "bind (mkdir_parents (path_parent p)) (\<lambda>_. write_file p (Gif [] d)) w =
               (Inr (), w1\<lparr>files := AList.update p (Gif [] d) (files w)\<rparr>)"
    by blast
  let ?w0 = "w1\<lparr>files := AList.update p (Gif [] d) (files w)\<rparr>"
  have "write_gif L folder p d w =
          (case png_files L folder w of
             (Inl e, w') \<Rightarrow> (Inl e, w')
           | (Inr ps, w') \<Rightarrow> frames_loop L p d [] ps ?w0)"
    using b ow png_files_world [of L folder w]
    by (auto simp: write_gif_def bind_def get_writer_def split: prod.splits sum.splits)
  moreover have "is_dir ?w0 (path_parent p)" "lookup ?w0 p = Some (Gif [] d)"
    using d1 by simp_all
  ultimately show "\<exists>w0. is_dir w0 (path_parent p) \<and> lookup w0 p = Some (Gif [] d)
             \<and> write_gif L folder p d w =
                 (case png_files L folder w of
                    (Inl e, w') \<Rightarrow> (Inl e, w')
                  | (Inr ps, w') \<Rightarrow> frames_loop L p d [] ps w0)"
    by blast
qed

theorem parents_created_before_writing_witness:
  "\<not> is_dir demo_world [''out'', ''deep'', ''f'']
   \<and> \<not> file_on_way demo_world [''out'', ''deep'', ''f'']
   \<and> \<not> is_dir demo_world [''out'']
   \<and> lookup demo_world [''game.pgn''] = Some (Text ''ed'')
   \<and> svg2png demo_lib ''ed'' = Inr ''#ed''
   \<and> open_writer demo_lib [''out'', ''deep'', ''f''] (PyInt 1) = None
   \<and> fst (save_svg ''ed'' [''out'', ''deep'', ''f''] demo_world) = Inr ()
   \<and> fst (svg_to_png demo_lib [''game.pgn''] (Some [''out'', ''deep'', ''f'']) demo_world) = Inr ()
   \<and> (\<exists>w0. is_dir w0 [''out'', ''deep''] \<and> lookup w0 [''out'', ''deep'', ''f''] = Some (Gif [] (PyInt 1))
          \<and> write_gif demo_lib png_folder_path [''out'', ''deep'', ''f''] (PyInt 1) demo_world
              = frames_loop demo_lib [''out'', ''deep'', ''f''] (PyInt 1) [] [] w0)"
proof -
  have a: "\<not> is_dir demo_world [''out'', ''deep'', ''f'']" by code_simp
  have b: "\<not> file_on_way demo_world [''out'', ''deep'', ''f'']" by code_simp
  have c: "\<not> is_dir demo_world [''out'']" by code_simp
  have d: "lookup demo_world [''game.pgn''] = Some (Text ''ed'')" by code_simp
  have e: "svg2png demo_lib ''ed'' = Inr ''#ed''" by (simp add: demo_lib_def)
  have o: "open_writer demo_lib [''out'', ''deep'', ''f''] (PyInt 1) = None"
    by (simp add: demo_lib_def)
  have pp: "path_parent [''out'', ''deep'', ''f''] = [''out'', ''deep'']"
    by (simp add: path_parent_def)
  have pf: "png_files demo_lib png_folder_path demo_world = (Inr [], demo_world)" by code_simp
  note t = parents_created_before_writing [OF a b, where s = "''ed''" and src = "[''game.pgn'']"
      and L = demo_lib and i = "''#ed''" and d = "PyInt 1" and folder = png_folder_path]
  from t have "fst (save_svg ''ed'' [''out'', ''deep'', ''f''] demo_world) = Inr ()"
    and "fst (svg_to_png demo_lib [''game.pgn''] (Some [''out'', ''deep'', ''f'']) demo_world) = Inr ()"
    using d e by auto
  moreover from t o have "\<exists>w0. is_dir w0 [''out'', ''deep'']
          \<and> lookup w0 [''out'', ''deep'', ''f''] = Some (Gif [] (PyInt 1))
          \<and> write_gif demo_lib png_folder_path [''out'', ''deep'', ''f''] (PyInt 1) demo_world
              = frames_loop demo_lib [''out'', ''deep'', ''f''] (PyInt 1) [] [] w0"
    unfolding pp pf by simp
  ultimately show ?thesis using a b c d e o by blast
qed

end
